theory Spec2Isabelle
  imports Complex_Main
begin

section \<open>Data model\<close>

text \<open>
  The component \<^verbatim>\<open>Tree\<close> of \<^verbatim>\<open>src/Tree/index.js\<close> keeps its tree in
  \<^verbatim>\<open>this.state.data\<close>, an array of node objects. The raw input (the \<^verbatim>\<open>data\<close> prop) is an
  array of objects with a name, an attribute mapping and an optional \<^verbatim>\<open>children\<close> array:
  \<open>None\<close> is an absent property, \<open>Some []\<close> an empty array.
\<close>

datatype raw =
  Raw (raw_name: string) (raw_attributes: "(string \<times> string) list")
      (raw_children: "raw list option")

text \<open>
  \<^verbatim>\<open>assignInternalProperties\<close> writes \<^verbatim>\<open>id\<close>, \<^verbatim>\<open>_collapsed\<close> and, for a node with a
  non-empty \<^verbatim>\<open>children\<close> array, replaces \<^verbatim>\<open>children\<close> by the array of assigned children and
  stores the very same array object under \<^verbatim>\<open>_children\<close>. An identifier cannot begin with an
  underscore here, so \<^verbatim>\<open>_collapsed\<close> is \<open>u_collapsed\<close> and \<^verbatim>\<open>_children\<close> is \<open>u_children\<close>;
  \<^verbatim>\<open>id\<close> is \<open>node_id\<close>.

  After assignment the property \<^verbatim>\<open>children\<close> holds no array of its own: it is absent,
  the raw empty array, or an alias of \<^verbatim>\<open>_children\<close>. The model records which. No function
  of the component reads \<^verbatim>\<open>children\<close> later; they all go through \<^verbatim>\<open>_children\<close>.
\<close>

datatype children_prop = Absent | Empty_Array | Same_Array_As_u_children

datatype node =
  Node (name: string) (attributes: "(string \<times> string) list") (node_id: string)
       (u_collapsed: bool) (children: children_prop) (u_children: "node list option")

datatype error = TypeError

section \<open>Identity assignment\<close>

text \<open>
  \<^verbatim>\<open>uuid.v4()\<close> is a library call; the model takes the sequence of values it returns as
  the parameter \<open>uuid\<close> and threads the number of calls made so far.

  \<^verbatim>\<open>
  assignInternalProperties(data) {
    return data.map(node => {
      node.id = uuid.v4();
      node._collapsed = false;
      if (node.children && node.children.length > 0) {
        node.children = this.assignInternalProperties(node.children);
        node._children = node.children;
      }
      return node;
    });
  }
  \<close>
\<close>

fun assignInternalProperties :: "(nat \<Rightarrow> string) \<Rightarrow> raw list \<Rightarrow> nat \<Rightarrow> node list \<times> nat"
  and assign_node :: "(nat \<Rightarrow> string) \<Rightarrow> raw \<Rightarrow> nat \<Rightarrow> node \<times> nat"
where
  "assignInternalProperties uuid [] k = ([], k)"
| "assignInternalProperties uuid (r # rs) k =
     (case assign_node uuid r k of
        (n, k1) \<Rightarrow>
          (case assignInternalProperties uuid rs k1 of
             (ns, k2) \<Rightarrow> (n # ns, k2)))"
| "assign_node uuid (Raw nm attrs ch) k =
     (case ch of
        Some (c # cs) \<Rightarrow>
          (case assignInternalProperties uuid (c # cs) (Suc k) of
             (kids, k') \<Rightarrow> (Node nm attrs (uuid k) False Same_Array_As_u_children (Some kids), k'))
      | Some [] \<Rightarrow> (Node nm attrs (uuid k) False Empty_Array None, Suc k)
      | None \<Rightarrow> (Node nm attrs (uuid k) False Absent None, Suc k))"

section \<open>Lookup by identifier\<close>

text \<open>
  \<^verbatim>\<open>
  findNodesById(nodeId, nodeSet, hits) {
    if (hits.length > 0) { return hits; }
    hits = hits.concat(nodeSet.filter(node => node.id === nodeId));
    nodeSet.forEach(node => {
      if (node._children && node._children.length > 0) {
        hits = this.findNodesById(nodeId, node._children, hits);
        return hits;
      }
      return hits;
    });
    return hits;
  }
  \<close>
  The \<^verbatim>\<open>forEach\<close> loop is \<open>findNodesById_forEach\<close>, with \<^verbatim>\<open>hits\<close> as its state.
\<close>

fun findNodesById :: "string \<Rightarrow> node list \<Rightarrow> node list \<Rightarrow> node list"
  and findNodesById_forEach :: "string \<Rightarrow> node list \<Rightarrow> node list \<Rightarrow> node list"
where
  "findNodesById nodeId nodeSet hits =
     (if length hits > 0 then hits
      else findNodesById_forEach nodeId nodeSet
             (hits @ filter (\<lambda>node. node_id node = nodeId) nodeSet))"
| "findNodesById_forEach nodeId [] hits = hits"
| "findNodesById_forEach nodeId (Node nm attrs i col ch uch # rest) hits =
     findNodesById_forEach nodeId rest
       (case uch of
          Some (c # cs) \<Rightarrow> findNodesById nodeId (c # cs) hits
        | _ \<Rightarrow> hits)"

section \<open>Collapse and expand\<close>

text \<open>
  \<^verbatim>\<open>
  collapseNode(node) {
    node._collapsed = true;
    if (node._children && node._children.length > 0) {
      node._children.forEach(child => { this.collapseNode(child); });
    }
  }
  expandNode(node) { node._collapsed = false; }
  \<close>
  Both mutate the object they are given; the model returns the object after the call.
\<close>

fun collapseNode :: "node \<Rightarrow> node" where
  "collapseNode (Node nm attrs i col ch uch) =
     Node nm attrs i True ch
       (case uch of
          Some (c # cs) \<Rightarrow> Some (map collapseNode (c # cs))
        | _ \<Rightarrow> uch)"

fun expandNode :: "node \<Rightarrow> node" where
  "expandNode (Node nm attrs i col ch uch) = Node nm attrs i False ch uch"


section \<open>Node objects in the tree\<close>

text \<open>
  \<open>subtree n\<close> lists \<open>n\<close> and every node below it through the \<^verbatim>\<open>_children\<close> arrays,
  parents before children; \<open>descendants n\<close> are the nodes strictly below \<open>n\<close>.
\<close>

fun all_nodes :: "node list \<Rightarrow> node list"
  and subtree :: "node \<Rightarrow> node list"
where
  "all_nodes [] = []"
| "all_nodes (n # ns) = subtree n @ all_nodes ns"
| "subtree (Node nm attrs i col ch uch) =
     Node nm attrs i col ch uch # (case uch of Some cs \<Rightarrow> all_nodes cs | None \<Rightarrow> [])"

definition descendants :: "node \<Rightarrow> node list" where
  "descendants n = (case u_children n of Some cs \<Rightarrow> all_nodes cs | None \<Rightarrow> [])"

definition desc_list :: "node list \<Rightarrow> node list" where
  "desc_list ns = concat (map descendants ns)"

text \<open>
  The handlers work on references: \<^verbatim>\<open>findNodesById\<close> returns node objects of the array it
  searched, and the caller mutates the object it got. A reference is the position of the
  object: its index in the top array, then the indices through the \<^verbatim>\<open>_children\<close> arrays.
  \<open>node_at\<close> reads the object at a reference, \<open>modify_at\<close> is a mutation of that object
  (a reference that leads nowhere changes nothing).
\<close>

type_synonym ref = "nat list"

fun node_at :: "ref \<Rightarrow> node list \<Rightarrow> node option" where
  "node_at [] ns = None"
| "node_at (i # r) ns =
     (if i < length ns then
        (if r = [] then Some (ns ! i)
         else (case u_children (ns ! i) of Some cs \<Rightarrow> node_at r cs | None \<Rightarrow> None))
      else None)"

fun modify_at :: "ref \<Rightarrow> (node \<Rightarrow> node) \<Rightarrow> node list \<Rightarrow> node list" where
  "modify_at [] f ns = ns"
| "modify_at (i # r) f ns =
     (if i < length ns then
        ns[i := (if r = [] then f (ns ! i)
                 else (case ns ! i of
                         Node nm attrs j col ch uch \<Rightarrow>
                           Node nm attrs j col ch (map_option (modify_at r f) uch)))]
      else ns)"

fun located :: "ref \<Rightarrow> nat \<Rightarrow> node list \<Rightarrow> (ref \<times> node) list" where
  "located p i [] = []"
| "located p i (n # ns) = (p @ [i], n) # located p (Suc i) ns"

text \<open>
  \<^verbatim>\<open>findNodesById\<close> once more, on an array located at \<open>p\<close>, each hit with its reference.
  Forgetting the references gives \<open>findNodesById\<close> (lemma \<open>findNodesById_at_nodes\<close>).
\<close>

fun findNodesById_at ::
    "string \<Rightarrow> ref \<Rightarrow> node list \<Rightarrow> (ref \<times> node) list \<Rightarrow> (ref \<times> node) list"
  and findNodesById_at_forEach ::
    "string \<Rightarrow> ref \<Rightarrow> nat \<Rightarrow> node list \<Rightarrow> (ref \<times> node) list \<Rightarrow> (ref \<times> node) list"
where
  "findNodesById_at nodeId p nodeSet hits =
     (if length hits > 0 then hits
      else findNodesById_at_forEach nodeId p 0 nodeSet
             (hits @ filter (\<lambda>(r, node). node_id node = nodeId) (located p 0 nodeSet)))"
| "findNodesById_at_forEach nodeId p i [] hits = hits"
| "findNodesById_at_forEach nodeId p i (Node nm attrs j col ch uch # rest) hits =
     findNodesById_at_forEach nodeId p (Suc i) rest
       (case uch of
          Some (c # cs) \<Rightarrow> findNodesById_at nodeId (p @ [i]) (c # cs) hits
        | _ \<Rightarrow> hits)"

section \<open>Props and component state\<close>

datatype orientation_t = Horizontal | Vertical

record point =
  pt_x :: real
  pt_y :: real

record separation_t =
  siblings :: real
  nonSiblings :: real

record scaleExtent_t =
  se_min :: real
  se_max :: real

text \<open>
  JavaScript numbers are modelled as reals. \<open>onClick_given\<close> says whether \<^verbatim>\<open>props.onClick\<close>
  is a function; an optional prop that is \<^verbatim>\<open>undefined\<close> is \<open>None\<close>.
\<close>

record props =
  orientation :: orientation_t
  nodeSize :: point
  separation :: separation_t
  depthFactor :: "real option"
  initialDepth :: "real option"
  collapsible :: bool
  onClick_given :: bool
  zoom :: real
  scaleExtent :: scaleExtent_t
  translate :: point

text \<open>
  The component: \<^verbatim>\<open>this.state.data\<close>, the fields \<^verbatim>\<open>initialRender\<close> and \<^verbatim>\<open>targetNode\<close>
  of \<^verbatim>\<open>this.internalState\<close>, and the calls made to the user's \<^verbatim>\<open>onClick\<close> so far (the node
  copy it received, \<open>None\<close> for \<^verbatim>\<open>undefined\<close>, and the event).
\<close>

record component =
  state_data :: "node list"
  internalState_initialRender :: bool
  internalState_targetNode :: "node option"
  onClick_calls :: "(node option \<times> string) list"

section \<open>Interaction\<close>

text \<open>
  \<^verbatim>\<open>
  handleOnClickCb(targetNode, evt) {
    const { onClick } = this.props;
    if (onClick && typeof onClick === 'function') { onClick(clone(targetNode), evt); }
  }
  handleNodeToggle(nodeId, evt) {
    const data = clone(this.state.data);
    const matches = this.findNodesById(nodeId, data, []);
    const targetNode = matches[0];
    if (this.props.collapsible) {
      targetNode._collapsed ? this.expandNode(targetNode) : this.collapseNode(targetNode);
      this.setState({ data }, () => this.handleOnClickCb(targetNode, evt));
      this.internalState.targetNode = targetNode;
    } else {
      this.handleOnClickCb(targetNode, evt);
    }
  }
  \<close>
  \<^verbatim>\<open>clone\<close> is a deep copy, the identity on values. \<^verbatim>\<open>matches[0]\<close> of an empty array is
  \<^verbatim>\<open>undefined\<close>, and reading \<^verbatim>\<open>_collapsed\<close> of it throws a TypeError before anything is
  committed. The callback of \<^verbatim>\<open>setState\<close> runs once the new state is committed.
\<close>

definition clone :: "'a \<Rightarrow> 'a" where
  "clone v = v"

definition handleOnClickCb :: "props \<Rightarrow> node option \<Rightarrow> string \<Rightarrow> component \<Rightarrow> component" where
  "handleOnClickCb p targetNode evt st =
     (if onClick_given p
      then st\<lparr>onClick_calls := onClick_calls st @ [(clone targetNode, evt)]\<rparr>
      else st)"

definition handleNodeToggle :: "props \<Rightarrow> string \<Rightarrow> string \<Rightarrow> component \<Rightarrow> error + component" where
  "handleNodeToggle p nodeId evt st =
     (let data = clone (state_data st);
          matches = findNodesById_at nodeId [] data []
      in case matches of
           [] \<Rightarrow>
             (if collapsible p then Inl TypeError
              else Inr (handleOnClickCb p None evt st))
         | (r, targetNode) # _ \<Rightarrow>
             (if collapsible p then
                (let toggle = (\<lambda>n. if u_collapsed n then expandNode n else collapseNode n)
                 in Inr (handleOnClickCb p (Some (toggle targetNode)) evt
                           (st\<lparr>state_data := modify_at r toggle data,
                               internalState_targetNode := Some (toggle targetNode)\<rparr>)))
              else Inr (handleOnClickCb p (Some targetNode) evt st)))"

section \<open>Initial zoom\<close>

text \<open>
  \<^verbatim>\<open>
  calculateD3Geometry(nextProps) {
    let scale;
    if (nextProps.zoom > nextProps.scaleExtent.max) { scale = nextProps.scaleExtent.max; }
    else if (nextProps.zoom < nextProps.scaleExtent.min) { scale = nextProps.scaleExtent.min; }
    else { scale = nextProps.zoom; }
    return { translate: nextProps.translate, scale };
  }
  \<close>
\<close>

record d3_geometry =
  g_translate :: point
  g_scale :: real

definition calculateD3Geometry :: "props \<Rightarrow> d3_geometry" where
  "calculateD3Geometry nextProps =
     \<lparr>g_translate = translate nextProps,
      g_scale =
        (if zoom nextProps > se_max (scaleExtent nextProps) then se_max (scaleExtent nextProps)
         else if zoom nextProps < se_min (scaleExtent nextProps) then se_min (scaleExtent nextProps)
         else zoom nextProps)\<rparr>"


section \<open>Layout\<close>

text \<open>
  \<^verbatim>\<open>
  setInitialTreeDepth(nodeSet, initialDepth) {
    nodeSet.forEach(n => { n._collapsed = n.depth >= initialDepth; });
  }
  generateTree() {
    const { initialDepth, depthFactor, separation, nodeSize, orientation } = this.props;
    const tree = layout.tree()
      .nodeSize(orientation === 'horizontal' ? [nodeSize.y, nodeSize.x] : [nodeSize.x, nodeSize.y])
      .separation((a, b) => (a.parent.id === b.parent.id ? separation.siblings
                                                          : separation.nonSiblings))
      .children(d => (d._collapsed ? null : d._children));
    const rootNode = this.state.data[0];
    const nodes = tree.nodes(rootNode);
    const links = tree.links(nodes);
    if (initialDepth !== undefined && this.internalState.initialRender) {
      this.setInitialTreeDepth(nodes, initialDepth);
    }
    if (depthFactor) {
      nodes.forEach(node => { node.y = node.depth * depthFactor; });
    }
    return { nodes, links };
  }
  \<close>
  The two callbacks handed to the layout come first. The layout keeps its bookkeeping on
  the node objects it visits; of that the component reads \<^verbatim>\<open>depth\<close> and \<^verbatim>\<open>parent.id\<close>,
  within the same pass, and returns the positions. The model does not store these in
  the node: an entry of the node list is a reference to a node object together with
  its \<^verbatim>\<open>depth\<close>, the identifier of its \<^verbatim>\<open>parent\<close> and its position \<^verbatim>\<open>x\<close>, \<^verbatim>\<open>y\<close>.
  The root has no \<^verbatim>\<open>parent\<close>; reading \<^verbatim>\<open>parent.id\<close> of it throws.
\<close>

record hnode =
  h_ref :: ref
  h_depth :: nat
  h_parent_id :: "string option"

record vnode = hnode +
  v_x :: real
  v_y :: real

definition children_accessor :: "node \<Rightarrow> node list option" where
  "children_accessor d = (if u_collapsed d then None else u_children d)"

definition separation_fn :: "separation_t \<Rightarrow> hnode \<Rightarrow> hnode \<Rightarrow> error + real" where
  "separation_fn sep a b =
     (case h_parent_id a of
        None \<Rightarrow> Inl TypeError
      | Some pa \<Rightarrow>
          (case h_parent_id b of
             None \<Rightarrow> Inl TypeError
           | Some pb \<Rightarrow> Inr (if pa = pb then siblings sep else nonSiblings sep)))"

definition tree_nodeSize :: "props \<Rightarrow> real \<times> real" where
  "tree_nodeSize p =
     (if orientation p = Horizontal then (pt_y (nodeSize p), pt_x (nodeSize p))
      else (pt_x (nodeSize p), pt_y (nodeSize p)))"

text \<open>
  Modelled from the spec: the traversal of \<^verbatim>\<open>layout.tree().nodes\<close> of the library d3,
  which is not part of the sources. The spec: the child accessor returns \<^verbatim>\<open>null\<close>
  (excluded from traversal) for a collapsed node, else its child list; the depth of a node
  is its traversal distance from the root (root 0, a child its parent's depth plus one).
  \<open>hierarchy\<close> lists the visible nodes, parents before children, each with its depth and
  the identifier of its parent.
\<close>

function hierarchy :: "ref \<Rightarrow> nat \<Rightarrow> string option \<Rightarrow> node \<Rightarrow> hnode list"
  and hierarchy_children :: "ref \<Rightarrow> nat \<Rightarrow> nat \<Rightarrow> string \<Rightarrow> node list \<Rightarrow> hnode list"
where
  "hierarchy p d par n =
     \<lparr>h_ref = p, h_depth = d, h_parent_id = par\<rparr> #
     (case children_accessor n of
        Some (c # cs) \<Rightarrow> hierarchy_children p 0 (Suc d) (node_id n) (c # cs)
      | _ \<Rightarrow> [])"
| "hierarchy_children p i d pid [] = []"
| "hierarchy_children p i d pid (c # cs) =
     hierarchy (p @ [i]) d (Some pid) c @ hierarchy_children p (Suc i) d pid cs"
  by pat_completeness auto
termination
proof (relation "measure (\<lambda>a. case a of Inl (p, d, par, n) \<Rightarrow> 2 * size n
                                 | Inr (p, i, d, pid, cs) \<Rightarrow> 2 * size_list size cs + 1)")
  show "wf (measure (\<lambda>a. case a of Inl (p, d, par, n) \<Rightarrow> 2 * size n
                                 | Inr (p, i, d, pid, cs) \<Rightarrow> 2 * size_list size cs + 1))"
    by simp
next
  fix p :: ref and d :: nat and par :: "string option" and n x2 c cs
  assume "children_accessor n = Some x2" "x2 = c # cs"
  then have "u_children n = Some (c # cs)"
    by (simp add: children_accessor_def split: if_splits)
  then have "size_list size (c # cs) < size n"
    by (cases n) simp
  then show "(Inr (p, 0, Suc d, node_id n, c # cs), Inl (p, d, par, n))
      \<in> measure (\<lambda>a. case a of Inl (p, d, par, n) \<Rightarrow> 2 * size n
                                | Inr (p, i, d, pid, cs) \<Rightarrow> 2 * size_list size cs + 1)"
    by simp
qed simp_all

text \<open>
  The placement proper, the unit off-axis coordinate that the library's tree-drawing walk
  gives each visible node from the separation callback and the visible tree, is a
  parameter \<open>walk\<close> of the model: nothing is assumed about it.
\<close>

type_synonym walk_t = "(hnode \<Rightarrow> hnode \<Rightarrow> error + real) \<Rightarrow> hnode list \<Rightarrow> ref \<Rightarrow> real"

text \<open>
  Modelled from the spec: the positions \<^verbatim>\<open>layout.tree().nodeSize([s0, s1])\<close> writes. The
  spec: the off-axis position is counted in units of the off-axis node spacing (two
  sibling leaves are \<^verbatim>\<open>nodeSize.<offaxis> * separation.siblings\<close> apart), and the along-axis
  position is proportional to the nesting level and the node spacing. So \<^verbatim>\<open>x\<close> is the
  unit coordinate times \<open>s0\<close> and \<^verbatim>\<open>y\<close> is the depth times \<open>s1\<close>.
\<close>

definition tree_nodes ::
    "walk_t \<Rightarrow> real \<times> real \<Rightarrow> (hnode \<Rightarrow> hnode \<Rightarrow> error + real) \<Rightarrow> node \<Rightarrow> vnode list" where
  "tree_nodes walk sz sep rootNode =
     (let hs = hierarchy [0] 0 None rootNode
      in map (\<lambda>h. \<lparr>h_ref = h_ref h, h_depth = h_depth h, h_parent_id = h_parent_id h,
                    v_x = walk sep hs (h_ref h) * fst sz,
                    v_y = real (h_depth h) * snd sz\<rparr>) hs)"

text \<open>
  Modelled from the spec: \<^verbatim>\<open>layout.tree().links\<close> of d3. The spec: the link list is an
  ordered sequence of source/target pairs, one per visible parent and child.
\<close>

definition tree_links :: "vnode list \<Rightarrow> (ref \<times> ref) list" where
  "tree_links nodes =
     concat (map (\<lambda>parent.
       map (\<lambda>child. (h_ref parent, h_ref child))
         (filter (\<lambda>child. h_depth child > 0 \<and> butlast (h_ref child) = h_ref parent) nodes))
       nodes)"

fun set_u_collapsed :: "bool \<Rightarrow> node \<Rightarrow> node" where
  "set_u_collapsed b (Node nm attrs i col ch uch) = Node nm attrs i b ch uch"

fun setInitialTreeDepth :: "vnode list \<Rightarrow> real \<Rightarrow> node list \<Rightarrow> node list" where
  "setInitialTreeDepth [] initDepth ns = ns"
| "setInitialTreeDepth (n # nodeSet) initDepth ns =
     setInitialTreeDepth nodeSet initDepth
       (modify_at (h_ref n) (set_u_collapsed (real (h_depth n) \<ge> initDepth)) ns)"

text \<open>
  \<open>generateTree\<close> returns the node and link lists and the component, whose node objects
  \<open>setInitialTreeDepth\<close> may have written to. With an empty \<^verbatim>\<open>state.data\<close> the root is
  \<^verbatim>\<open>undefined\<close> and the library's traversal throws on it.
\<close>

definition generateTree ::
    "walk_t \<Rightarrow> props \<Rightarrow> component \<Rightarrow> error + ((vnode list \<times> (ref \<times> ref) list) \<times> component)" where
  "generateTree walk p st =
     (case state_data st of
        [] \<Rightarrow> Inl TypeError
      | rootNode # _ \<Rightarrow>
          (let nodes = tree_nodes walk (tree_nodeSize p) (separation_fn (separation p)) rootNode;
               links = tree_links nodes;
               st1 = (case initialDepth p of
                        Some initDepth \<Rightarrow>
                          if internalState_initialRender st
                          then st\<lparr>state_data := setInitialTreeDepth nodes initDepth (state_data st)\<rparr>
                          else st
                      | None \<Rightarrow> st);
               nodes1 = (case depthFactor p of
                           Some f \<Rightarrow>
                             if f \<noteq> 0
                             then map (\<lambda>node. node\<lparr>v_y := real (h_depth node) * f\<rparr>) nodes
                             else nodes
                         | None \<Rightarrow> nodes)
           in Inr ((nodes1, links), st1)))"

text \<open>
  The life cycle around it: the constructor assigns the internal properties to a copy of
  the \<^verbatim>\<open>data\<close> prop and sets \<^verbatim>\<open>initialRender\<close>; the first \<^verbatim>\<open>render\<close> calls
  \<^verbatim>\<open>generateTree\<close>; \<^verbatim>\<open>componentDidMount\<close> then clears \<^verbatim>\<open>initialRender\<close>.
\<close>

definition constructor :: "(nat \<Rightarrow> string) \<Rightarrow> raw list \<Rightarrow> nat \<Rightarrow> component" where
  "constructor uuid rawData k =
     \<lparr>state_data = fst (assignInternalProperties uuid (clone rawData) k),
      internalState_initialRender = True,
      internalState_targetNode = None,
      onClick_calls = []\<rparr>"

definition componentDidMount :: "component \<Rightarrow> component" where
  "componentDidMount st = st\<lparr>internalState_initialRender := False\<rparr>"


section \<open>Sample data and observations\<close>

text \<open>\<^verbatim>\<open>Tree.defaultProps\<close>, for the props the model has.\<close>

definition defaultProps :: props where
  "defaultProps =
     \<lparr>orientation = Horizontal,
      nodeSize = \<lparr>pt_x = 140, pt_y = 140\<rparr>,
      separation = \<lparr>siblings = 1, nonSiblings = 2\<rparr>,
      depthFactor = None,
      initialDepth = None,
      collapsible = True,
      onClick_given = False,
      zoom = 1,
      scaleExtent = \<lparr>se_min = 1 / 10, se_max = 1\<rparr>,
      translate = \<lparr>pt_x = 0, pt_y = 0\<rparr>\<rparr>"

text \<open>\<open>clear_flags\<close> forgets the \<^verbatim>\<open>_collapsed\<close> flags of a node and of everything below it.\<close>

fun clear_flags :: "node \<Rightarrow> node" where
  "clear_flags (Node nm attrs i col ch uch) =
     Node nm attrs i False ch (map_option (map clear_flags) uch)"

text \<open>
  \<open>raw_of\<close> reads a node back as raw input: its name, its attributes and the children
  its \<^verbatim>\<open>children\<close> property holds. \<open>sub_at r n\<close> is the node reached from \<open>n\<close> through the
  \<^verbatim>\<open>_children\<close> arrays along the indices \<open>r\<close>.
\<close>

fun raw_of :: "node \<Rightarrow> raw" where
  "raw_of (Node nm attrs i col ch uch) =
     Raw nm attrs
       (case ch of
          Absent \<Rightarrow> None
        | Empty_Array \<Rightarrow> Some []
        | Same_Array_As_u_children \<Rightarrow> map_option (map raw_of) uch)"


text \<open>What a call of \<open>generateTree\<close> returned: its node list, link list and component.\<close>

definition result_nodes ::
    "error + ((vnode list \<times> (ref \<times> ref) list) \<times> component) \<Rightarrow> vnode list" where
  "result_nodes res = (case res of Inl e \<Rightarrow> [] | Inr ((nodes, links), st) \<Rightarrow> nodes)"

definition result_links ::
    "error + ((vnode list \<times> (ref \<times> ref) list) \<times> component) \<Rightarrow> (ref \<times> ref) list" where
  "result_links res = (case res of Inl e \<Rightarrow> [] | Inr ((nodes, links), st) \<Rightarrow> links)"

definition result_component ::
    "component \<Rightarrow> error + ((vnode list \<times> (ref \<times> ref) list) \<times> component) \<Rightarrow> component" where
  "result_component st0 res = (case res of Inl e \<Rightarrow> st0 | Inr ((nodes, links), st) \<Rightarrow> st)"

text \<open>
  The unit coordinates of the visible nodes, before scaling, and the set of
  depth / off-axis position pairs of a node list.
\<close>

definition unit_positions :: "walk_t \<Rightarrow> props \<Rightarrow> component \<Rightarrow> real list" where
  "unit_positions walk p st =
     (case state_data st of
        [] \<Rightarrow> []
      | rootNode # _ \<Rightarrow>
          (let hs = hierarchy [0] 0 None rootNode
           in map (\<lambda>h. walk (separation_fn (separation p)) hs (h_ref h)) hs))"

definition offaxis_pairs :: "vnode list \<Rightarrow> (nat \<times> real) set" where
  "offaxis_pairs nodes = set (map (\<lambda>v. (h_depth v, v_x v)) nodes)"

text \<open>
  A sequence of distinct identifiers, and three inputs: a root with a child \<open>a\<close> that has a
  child \<open>b\<close>, and a childless \<open>c\<close>; the same tree assigned, with \<open>a\<close> and \<open>b\<close> collapsed;
  a chain root, \<open>a\<close>, \<open>b\<close>; a root with two leaves.
\<close>

definition uuid_sample :: "nat \<Rightarrow> string" where
  "uuid_sample k = replicate (Suc k) CHR ''u''"

definition raw_sample :: "raw list" where
  "raw_sample =
     [Raw ''root'' [] (Some [Raw ''a'' [(''role'', ''x'')] (Some [Raw ''b'' [] None]),
                             Raw ''c'' [] (Some [])])]"

definition tree_sample :: "node list" where
  "tree_sample =
     [Node ''root'' [] ''u'' False Same_Array_As_u_children
        (Some [Node ''a'' [(''role'', ''x'')] ''uu'' True Same_Array_As_u_children
                 (Some [Node ''b'' [] ''uuu'' True Absent None]),
               Node ''c'' [] ''uuuu'' False Empty_Array None])]"

definition node_sample :: node where
  "node_sample =
     Node ''root'' [] ''u'' False Same_Array_As_u_children
        (Some [Node ''a'' [(''role'', ''x'')] ''uu'' True Same_Array_As_u_children
                 (Some [Node ''b'' [] ''uuu'' False Absent None]),
               Node ''c'' [] ''uuuu'' False Empty_Array None])"

definition component_sample :: component where
  "component_sample =
     \<lparr>state_data = tree_sample,
      internalState_initialRender = False,
      internalState_targetNode = None,
      onClick_calls = []\<rparr>"

definition chain_sample :: "raw list" where
  "chain_sample = [Raw ''root'' [] (Some [Raw ''a'' [] (Some [Raw ''b'' [] None])])]"

definition star_sample :: "raw list" where
  "star_sample = [Raw ''root'' [] (Some [Raw ''a'' [] None, Raw ''b'' [] None])]"

text \<open>
  Two top nodes, the second with a child; a root whose child \<open>p\<close> has the leaves \<open>a1\<close> and
  \<open>a2\<close> and whose child \<open>q\<close> has the leaf \<open>b\<close>, raw and assigned; the props with the two
  separation factors exchanged.
\<close>

definition raw_pair :: "raw list" where
  "raw_pair = [Raw ''p'' [] None, Raw ''q'' [(''k'', ''v'')] (Some [Raw ''q1'' [] None])]"




definition wide_props :: props where
  "wide_props = defaultProps\<lparr>nodeSize := \<lparr>pt_x = 100, pt_y = 200\<rparr>\<rparr>"

text \<open>
  A first life cycle with \<^verbatim>\<open>initialDepth = 1\<close> on the chain: the first \<^verbatim>\<open>render\<close>, the
  component after it and \<^verbatim>\<open>componentDidMount\<close>, and the component after a click on \<open>a\<close>.
\<close>

definition first_pass ::
    "walk_t \<Rightarrow> error + ((vnode list \<times> (ref \<times> ref) list) \<times> component)" where
  "first_pass walk =
     generateTree walk (defaultProps\<lparr>initialDepth := Some 1\<rparr>)
       (constructor uuid_sample chain_sample 0)"

definition after_first_pass :: "walk_t \<Rightarrow> component" where
  "after_first_pass walk =
     componentDidMount
       (result_component (constructor uuid_sample chain_sample 0) (first_pass walk))"

definition after_click :: "walk_t \<Rightarrow> component" where
  "after_click walk =
     (case handleNodeToggle (defaultProps\<lparr>initialDepth := Some 1\<rparr>) ''uu'' ''click''
             (after_first_pass walk) of
        Inl e \<Rightarrow> after_first_pass walk
      | Inr st \<Rightarrow> st)"

text \<open>
  Modelled from the spec: the unit coordinates of the library's walk for a root with two
  leaf children under sibling separation 1. The spec: two sibling leaves are
  \<^verbatim>\<open>nodeSize.<offaxis> * separation.siblings\<close> apart; the library centres a parent over its
  children, so the children stand half a unit either side of the root.
\<close>

definition walk_two_leaves :: walk_t where
  "walk_two_leaves sep hs r =
     (if r = [0, 0] then - 1 / 2 else if r = [0, 1] then 1 / 2 else 0)"




section \<open>Lemmas\<close>

subsection \<open>Identity assignment\<close>

text \<open>
  The identifiers of the assigned nodes, read parents first, are the values of the calls
  of \<^verbatim>\<open>uuid.v4\<close> made by the run, in order.
\<close>

lemma subtree_eq: "subtree n = n # descendants n"
  by (cases n) (simp add: descendants_def)

lemma assign_ids:
  "assignInternalProperties uuid rs k = (ns, k') \<Longrightarrow>
     map node_id (all_nodes ns) = map uuid [k..<k'] \<and> k \<le> k'"
  "assign_node uuid r k = (n, k') \<Longrightarrow>
     map node_id (subtree n) = map uuid [k..<k'] \<and> k < k'"
proof (induction uuid rs k and uuid r k arbitrary: ns k' and n k'
       rule: assignInternalProperties_assign_node.induct)
  case (1 uuid k)
  then show ?case by simp
next
  case (2 uuid r rs k)
  obtain n k1 where a: "assign_node uuid r k = (n, k1)" by (cases "assign_node uuid r k")
  obtain ms k2 where b: "assignInternalProperties uuid rs k1 = (ms, k2)"
    by (cases "assignInternalProperties uuid rs k1")
  from 2(1)[OF a] have h1: "map node_id (subtree n) = map uuid [k..<k1]" "k < k1" by auto
  from 2(2)[OF a[symmetric] b] have h2: "map node_id (all_nodes ms) = map uuid [k1..<k2]" "k1 \<le> k2"
    by auto
  from 2(3) a b have e: "ns = n # ms" "k' = k2" by auto
  have "[k..<k2] = [k..<k1] @ [k1..<k2]" using h1(2) h2(2)
    by (metis le_add_diff_inverse less_imp_le_nat upt_add_eq_append)
  then show ?case using h1 h2 e by simp
next
  case (3 uuid nm attrs ch k)
  show ?case
  proof (cases ch)
    case None
    with 3 show ?thesis by auto
  next
    case (Some l)
    show ?thesis
    proof (cases l)
      case Nil
      with Some 3 show ?thesis by auto
    next
      case (Cons c cs)
      obtain kids k2 where a: "assignInternalProperties uuid (c # cs) (Suc k) = (kids, k2)"
        by (cases "assignInternalProperties uuid (c # cs) (Suc k)")
      from 3(1)[OF Some Cons a] have h: "map node_id (all_nodes kids) = map uuid [Suc k..<k2]" "Suc k \<le> k2"
        by auto
      from 3(2) Some Cons a have e: "n = Node nm attrs (uuid k) False Same_Array_As_u_children (Some kids)" "k' = k2"
        by auto
      have "[k..<k2] = k # [Suc k..<k2]" using h(2) by (simp add: upt_conv_Cons)
      then show ?thesis using h e by simp
    qed
  qed
qed

lemma assign_flags:
  "assignInternalProperties uuid rs k = (ns, k') \<Longrightarrow>
     (\<forall>m \<in> set (all_nodes ns). \<not> u_collapsed m \<and>
        (case u_children m of None \<Rightarrow> children m \<noteq> Same_Array_As_u_children
         | Some cs \<Rightarrow> cs \<noteq> [] \<and> children m = Same_Array_As_u_children))"
  "assign_node uuid r k = (n, k') \<Longrightarrow>
     (\<forall>m \<in> set (subtree n). \<not> u_collapsed m \<and>
        (case u_children m of None \<Rightarrow> children m \<noteq> Same_Array_As_u_children
         | Some cs \<Rightarrow> cs \<noteq> [] \<and> children m = Same_Array_As_u_children))"
proof (induction uuid rs k and uuid r k arbitrary: ns k' and n k'
       rule: assignInternalProperties_assign_node.induct)
  case (1 uuid k)
  then show ?case by simp
next
  case (2 uuid r rs k)
  obtain n k1 where a: "assign_node uuid r k = (n, k1)" by (cases "assign_node uuid r k")
  obtain ms k2 where b: "assignInternalProperties uuid rs k1 = (ms, k2)"
    by (cases "assignInternalProperties uuid rs k1")
  from 2(3) a b have e: "ns = n # ms" by auto
  show ?case using 2(1)[OF a] 2(2)[OF a[symmetric] b] e by auto
next
  case (3 uuid nm attrs ch k)
  show ?case
  proof (cases ch)
    case None
    with 3 show ?thesis by auto
  next
    case (Some l)
    show ?thesis
    proof (cases l)
      case Nil
      with Some 3 show ?thesis by auto
    next
      case (Cons c cs)
      obtain kids k2 where a: "assignInternalProperties uuid (c # cs) (Suc k) = (kids, k2)"
        by (cases "assignInternalProperties uuid (c # cs) (Suc k)")
      from 3(2) Some Cons a have e: "n = Node nm attrs (uuid k) False Same_Array_As_u_children (Some kids)"
        by auto
      have "kids \<noteq> []" using a by (auto split: prod.splits)
      then show ?thesis using 3(1)[OF Some Cons a] e by auto
    qed
  qed
qed

lemma assign_names:
  "assignInternalProperties uuid rs k = (ns, k') \<Longrightarrow> map name ns = map raw_name rs"
proof (induction rs arbitrary: k ns k')
  case Nil
  then show ?case by simp
next
  case (Cons r rs)
  obtain nm attrs ch where r: "r = Raw nm attrs ch" by (cases r)
  show ?case using Cons.prems Cons.IH r
    by (auto split: prod.splits option.splits list.splits)
qed

lemma inj_uuid_sample: "inj uuid_sample"
proof (rule injI)
  fix a b assume "uuid_sample a = uuid_sample b"
  then have "length (uuid_sample a) = length (uuid_sample b)" by simp
  then show "a = b" by (simp add: uuid_sample_def)
qed

lemma clear_flags_ids:
  "map node_id (all_nodes (map clear_flags ns)) = map node_id (all_nodes ns)"
  "map node_id (subtree (clear_flags n)) = map node_id (subtree n)"
  by (induction ns and n rule: all_nodes_subtree.induct) (auto split: option.splits)

lemma assign_sample:
  "assignInternalProperties uuid_sample raw_sample 0 = (map clear_flags tree_sample, 4)"
  by (simp add: raw_sample_def tree_sample_def uuid_sample_def)

lemma assign_raw_of:
  "assignInternalProperties uuid rs k = (ns, k') \<Longrightarrow> map raw_of ns = rs"
  "assign_node uuid r k = (n, k') \<Longrightarrow> raw_of n = r"
proof (induction uuid rs k and uuid r k arbitrary: ns k' and n k'
       rule: assignInternalProperties_assign_node.induct)
  case (1 uuid k)
  then show ?case by simp
next
  case (2 uuid r rs k)
  obtain n k1 where a: "assign_node uuid r k = (n, k1)" by (cases "assign_node uuid r k")
  obtain ms k2 where b: "assignInternalProperties uuid rs k1 = (ms, k2)"
    by (cases "assignInternalProperties uuid rs k1")
  from 2(3) a b have e: "ns = n # ms" by auto
  show ?case using 2(1)[OF a] 2(2)[OF a[symmetric] b] e by simp
next
  case (3 uuid nm attrs ch k)
  show ?case
  proof (cases ch)
    case None
    with 3 show ?thesis by auto
  next
    case (Some l)
    show ?thesis
    proof (cases l)
      case Nil
      with Some 3 show ?thesis by auto
    next
      case (Cons c cs)
      obtain kids k2 where a: "assignInternalProperties uuid (c # cs) (Suc k) = (kids, k2)"
        by (cases "assignInternalProperties uuid (c # cs) (Suc k)")
      from 3(2) Some Cons a
      have e: "n = Node nm attrs (uuid k) False Same_Array_As_u_children (Some kids)"
        by auto
      show ?thesis using 3(1)[OF Some Cons a] e Some Cons by simp
    qed
  qed
qed

lemma assign_pair:
  "assignInternalProperties uuid_sample raw_pair 0 =
     ([Node ''p'' [] ''u'' False Absent None,
       Node ''q'' [(''k'', ''v'')] ''uu'' False Same_Array_As_u_children
         (Some [Node ''q1'' [] ''uuu'' False Absent None])], 3)"
  by (simp add: raw_pair_def uuid_sample_def)

subsection \<open>Lookup\<close>

text \<open>
  The defining equation of \<open>findNodesById\<close> rewrites its own right-hand side; it is
  unfolded by hand.
\<close>

declare findNodesById.simps(1) [simp del]

lemma desc_list_simps [simp]:
  "desc_list [] = []"
  "desc_list (n # ns) = descendants n @ desc_list ns"
  by (simp_all add: desc_list_def)

lemma set_all_nodes: "set (all_nodes ns) = set ns \<union> set (desc_list ns)"
  by (induction ns) (auto simp: subtree_eq)

lemma set_all_nodes_Un: "set (all_nodes ns) = (\<Union>n \<in> set ns. set (subtree n))"
  by (induction ns) auto

lemma distinct_all_nodes:
  "distinct (map f (all_nodes ns)) \<Longrightarrow>
     distinct (map f ns) \<and> distinct (map f (desc_list ns)) \<and>
     f ` set ns \<inter> f ` set (desc_list ns) = {}"
proof (induction ns)
  case Nil
  then show ?case by simp
next
  case (Cons n ns)
  from Cons.prems have d: "distinct (map f (all_nodes ns))" by (simp add: subtree_eq)
  from Cons.IH[OF d] show ?case using Cons.prems
    by (auto simp: subtree_eq set_all_nodes)
qed

lemma find_hits:
  "hits \<noteq> [] \<Longrightarrow> findNodesById nodeId nodeSet hits = hits"
  by (simp add: findNodesById.simps(1))

lemma forEach_hits:
  "hits \<noteq> [] \<Longrightarrow> findNodesById_forEach nodeId nodeSet hits = hits"
proof (induction nodeSet)
  case Nil
  then show ?case by simp
next
  case (Cons n ns)
  obtain nm attrs i col ch uch where n: "n = Node nm attrs i col ch uch" by (cases n)
  show ?case using Cons n by (simp add: find_hits split: option.splits list.splits)
qed

lemma filter_id_distinct:
  "distinct (map node_id ns) \<Longrightarrow> nodeId \<in> node_id ` set ns \<Longrightarrow>
     \<exists>n. filter (\<lambda>node. node_id node = nodeId) ns = [n] \<and> node_id n = nodeId \<and> n \<in> set ns"
proof (induction ns)
  case Nil
  then show ?case by simp
next
  case (Cons a ns)
  show ?case
  proof (cases "node_id a = nodeId")
    case True
    with Cons.prems have "filter (\<lambda>node. node_id node = nodeId) ns = []"
      by (force simp: filter_empty_conv image_iff)
    with True show ?thesis by simp
  next
    case False
    with Cons show ?thesis by auto
  qed
qed

lemma find_unique:
  "hits = [] \<Longrightarrow> distinct (map node_id (all_nodes nodeSet)) \<Longrightarrow>
     (nodeId \<in> node_id ` set (all_nodes nodeSet) \<longrightarrow>
        (\<exists>n. findNodesById nodeId nodeSet hits = [n] \<and> node_id n = nodeId \<and> n \<in> set (all_nodes nodeSet))) \<and>
     (nodeId \<notin> node_id ` set (all_nodes nodeSet) \<longrightarrow> findNodesById nodeId nodeSet hits = [])"
  "hits = [] \<Longrightarrow> distinct (map node_id (desc_list nodeSet)) \<Longrightarrow>
     (nodeId \<in> node_id ` set (desc_list nodeSet) \<longrightarrow>
        (\<exists>n. findNodesById_forEach nodeId nodeSet hits = [n] \<and> node_id n = nodeId \<and> n \<in> set (desc_list nodeSet))) \<and>
     (nodeId \<notin> node_id ` set (desc_list nodeSet) \<longrightarrow> findNodesById_forEach nodeId nodeSet hits = [])"
proof (induction nodeId nodeSet hits and nodeId nodeSet hits
       rule: findNodesById_findNodesById_forEach.induct)
  case (1 nodeId nodeSet hits)
  let ?top = "filter (\<lambda>node. node_id node = nodeId) nodeSet"
  from distinct_all_nodes[OF 1(3)]
  have d: "distinct (map node_id nodeSet)" "distinct (map node_id (desc_list nodeSet))"
    "node_id ` set nodeSet \<inter> node_id ` set (desc_list nodeSet) = {}" by auto
  have eq: "findNodesById nodeId nodeSet hits = findNodesById_forEach nodeId nodeSet ?top"
    using 1(2) by (simp add: findNodesById.simps(1))
  show ?case
  proof (cases "nodeId \<in> node_id ` set nodeSet")
    case True
    from filter_id_distinct[OF d(1) True] obtain n where
      n: "?top = [n]" "node_id n = nodeId" "n \<in> set nodeSet" by auto
    have "findNodesById nodeId nodeSet hits = [n]" using eq n(1) by (simp add: forEach_hits)
    with n True show ?thesis by (auto simp: set_all_nodes)
  next
    case False
    then have top: "?top = []" by (auto simp: filter_empty_conv)
    have ih: "(nodeId \<in> node_id ` set (desc_list nodeSet) \<longrightarrow>
        (\<exists>n. findNodesById_forEach nodeId nodeSet ?top = [n] \<and> node_id n = nodeId \<and> n \<in> set (desc_list nodeSet))) \<and>
     (nodeId \<notin> node_id ` set (desc_list nodeSet) \<longrightarrow> findNodesById_forEach nodeId nodeSet ?top = [])"
      using 1(1)[of] 1(2) top d(2) by simp
    show ?thesis using ih eq False top by (auto simp: set_all_nodes)
  qed
next
  case (2 nodeId hits)
  then show ?case by simp
next
  case (3 nodeId nm attrs i col ch uch rest hits)
  let ?n = "Node nm attrs i col ch uch"
  from 3(4) have d: "distinct (map node_id (descendants ?n))" "distinct (map node_id (desc_list rest))"
    "node_id ` set (descendants ?n) \<inter> node_id ` set (desc_list rest) = {}" by auto
  show ?case
  proof (cases "\<exists>c cs. uch = Some (c # cs)")
    case False
    then have s: "findNodesById_forEach nodeId (?n # rest) hits = findNodesById_forEach nodeId rest hits"
      and e: "descendants ?n = []"
      by (cases uch; cases "the uch"; simp add: descendants_def)+
    have "(case uch of None \<Rightarrow> hits | Some [] \<Rightarrow> hits | Some (c # cs) \<Rightarrow> findNodesById nodeId (c # cs) hits) = hits"
      using False by (auto split: option.splits list.splits)
    with 3(2) 3(3) d(2) show ?thesis using s e by simp
  next
    case True
    then obtain c cs where u: "uch = Some (c # cs)" by auto
    have dn: "descendants ?n = all_nodes (c # cs)" using u by (simp add: descendants_def)
    have s: "findNodesById_forEach nodeId (?n # rest) hits =
             findNodesById_forEach nodeId rest (findNodesById nodeId (c # cs) hits)"
      using u by simp
    from 3(1)[OF u refl 3(3)] d(1) dn
    have ih1: "(nodeId \<in> node_id ` set (all_nodes (c # cs)) \<longrightarrow>
        (\<exists>n. findNodesById nodeId (c # cs) hits = [n] \<and> node_id n = nodeId \<and> n \<in> set (all_nodes (c # cs)))) \<and>
       (nodeId \<notin> node_id ` set (all_nodes (c # cs)) \<longrightarrow> findNodesById nodeId (c # cs) hits = [])"
      by simp
    show ?thesis
    proof (cases "nodeId \<in> node_id ` set (all_nodes (c # cs))")
      case True
      with ih1 obtain n where n: "findNodesById nodeId (c # cs) hits = [n]" "node_id n = nodeId"
        "n \<in> set (all_nodes (c # cs))" by auto
      have "findNodesById_forEach nodeId (?n # rest) hits = [n]"
        using s n(1) by (simp add: forEach_hits)
      with n dn True show ?thesis by auto
    next
      case False
      with ih1 have e: "findNodesById nodeId (c # cs) hits = []" by simp
      have "(case uch of None \<Rightarrow> hits | Some [] \<Rightarrow> hits | Some (c # cs) \<Rightarrow> findNodesById nodeId (c # cs) hits) = []"
        using u e by simp
      from 3(2)[OF this d(2)] s e False dn 3(3) show ?thesis by auto
    qed
  qed
qed

lemma find_subset:
  "set (findNodesById nodeId nodeSet hits)
     \<subseteq> set hits \<union> {n \<in> set (all_nodes nodeSet). node_id n = nodeId}"
  "set (findNodesById_forEach nodeId nodeSet hits)
     \<subseteq> set hits \<union> {n \<in> set (desc_list nodeSet). node_id n = nodeId}"
proof (induction nodeId nodeSet hits and nodeId nodeSet hits
       rule: findNodesById_findNodesById_forEach.induct)
  case (1 nodeId nodeSet hits)
  show ?case
  proof (cases "hits = []")
    case False
    then show ?thesis by (simp add: findNodesById.simps(1))
  next
    case True
    with 1 show ?thesis by (auto simp: findNodesById.simps(1) set_all_nodes)
  qed
next
  case (2 nodeId hits)
  then show ?case by simp
next
  case (3 nodeId nm attrs i col ch uch rest hits)
  show ?case
  proof (cases "\<exists>c cs. uch = Some (c # cs)")
    case True
    then obtain c cs where u: "uch = Some (c # cs)" by auto
    have dn: "descendants (Node nm attrs i col ch uch) = all_nodes (c # cs)"
      using u by (simp add: descendants_def)
    show ?thesis using 3(1)[OF u refl] 3(2) u dn by auto
  next
    case False
    then have "(case uch of None \<Rightarrow> hits | Some [] \<Rightarrow> hits
                | Some (c # cs) \<Rightarrow> findNodesById nodeId (c # cs) hits) = hits"
      by (auto split: option.splits list.splits)
    with 3(2) show ?thesis by auto
  qed
qed

lemma find_present:
  "hits \<noteq> [] \<or> nodeId \<in> node_id ` set (all_nodes nodeSet) \<Longrightarrow>
     findNodesById nodeId nodeSet hits \<noteq> []"
  "hits \<noteq> [] \<or> nodeId \<in> node_id ` set (desc_list nodeSet) \<Longrightarrow>
     findNodesById_forEach nodeId nodeSet hits \<noteq> []"
proof (induction nodeId nodeSet hits and nodeId nodeSet hits
       rule: findNodesById_findNodesById_forEach.induct)
  case (1 nodeId nodeSet hits)
  show ?case
  proof (cases "hits = []")
    case False
    then show ?thesis by (simp add: findNodesById.simps(1))
  next
    case True
    let ?top = "filter (\<lambda>node. node_id node = nodeId) nodeSet"
    from 1(2) True have "nodeId \<in> node_id ` set nodeSet \<or> nodeId \<in> node_id ` set (desc_list nodeSet)"
      by (auto simp: set_all_nodes)
    then have "hits @ ?top \<noteq> [] \<or> nodeId \<in> node_id ` set (desc_list nodeSet)"
      by (auto simp: filter_empty_conv)
    from 1(1)[OF _ this] True show ?thesis by (simp add: findNodesById.simps(1))
  qed
next
  case (2 nodeId hits)
  then show ?case by simp
next
  case (3 nodeId nm attrs i col ch uch rest hits)
  let ?step = "(case uch of None \<Rightarrow> hits | Some [] \<Rightarrow> hits
                | Some (c # cs) \<Rightarrow> findNodesById nodeId (c # cs) hits)"
  have "?step \<noteq> [] \<or> nodeId \<in> node_id ` set (desc_list rest)"
  proof (cases "\<exists>c cs. uch = Some (c # cs)")
    case True
    then obtain c cs where u: "uch = Some (c # cs)" by auto
    have dn: "descendants (Node nm attrs i col ch uch) = all_nodes (c # cs)"
      using u by (simp add: descendants_def)
    from 3(3) dn have "hits \<noteq> [] \<or> nodeId \<in> node_id ` set (all_nodes (c # cs))
        \<or> nodeId \<in> node_id ` set (desc_list rest)" by auto
    then show ?thesis using 3(1)[OF u refl] u by auto
  next
    case False
    then have e: "?step = hits" by (auto split: option.splits list.splits)
    from False have "descendants (Node nm attrs i col ch uch) = []"
      by (cases uch; cases "the uch"; simp add: descendants_def)
    with 3(3) e show ?thesis by auto
  qed
  from 3(2)[OF this] show ?case by simp
qed

subsection \<open>References\<close>

text \<open>
  Reading back the object a mutation wrote, and what a mutation that keeps the child
  array leaves alone.
\<close>

lemma length_modify_at [simp]: "length (modify_at r f ns) = length ns"
  by (cases r) simp_all

lemma node_at_modify_at_same:
  "node_at r ns = Some n \<Longrightarrow> node_at r (modify_at r f ns) = Some (f n)"
proof (induction r arbitrary: ns)
  case Nil
  then show ?case by simp
next
  case (Cons i r)
  show ?case
  proof (cases "r = []")
    case True
    with Cons.prems show ?thesis by (auto split: if_splits)
  next
    case False
    from Cons.prems have i: "i < length ns" by (auto split: if_splits)
    obtain nm attrs j col ch uch where n: "ns ! i = Node nm attrs j col ch uch"
      by (cases "ns ! i")
    from Cons.prems False i n obtain cs where cs: "uch = Some cs" "node_at r cs = Some n"
      by (auto split: option.splits)
    from Cons.IH[OF cs(2)] show ?thesis using False i n cs by simp
  qed
qed

lemma node_at_modify_at_flag:
  assumes f: "\<And>m. u_children (f m) = u_children m"
  shows "q \<noteq> r \<Longrightarrow>
     map_option u_collapsed (node_at q (modify_at r f ns)) = map_option u_collapsed (node_at q ns)"
proof (induction r arbitrary: q ns)
  case Nil
  then show ?case by simp
next
  case (Cons i r)
  show ?case
  proof (cases q)
    case Nil
    then show ?thesis by simp
  next
    case (Cons j q')
    show ?thesis
    proof (cases "i < length ns")
      case False
      then show ?thesis by simp
    next
      case i: True
      show ?thesis
      proof (cases "j = i")
        case False
        then show ?thesis using Cons i by simp
      next
        case True
        obtain nm attrs k col ch uch where n: "ns ! i = Node nm attrs k col ch uch"
          by (cases "ns ! i")
        show ?thesis
        proof (cases "r = []")
          case r: True
          with Cons.prems Cons True have "q' \<noteq> []" by simp
          then show ?thesis using Cons True i r f by simp
        next
          case r: False
          show ?thesis
          proof (cases "q' = []")
            case True
            then show ?thesis using Cons \<open>j = i\<close> i r n by simp
          next
            case False
            from Cons.prems Cons \<open>j = i\<close> have ne: "q' \<noteq> r" by simp
            show ?thesis using Cons \<open>j = i\<close> i r n False Cons.IH[OF ne]
              by (cases uch) simp_all
          qed
        qed
      qed
    qed
  qed
qed

declare findNodesById_at.simps(1) [simp del]

lemma located_filter:
  "map snd (filter (\<lambda>(r, node). P node) (located p i ns)) = filter P ns"
  by (induction ns arbitrary: i) auto

lemma findNodesById_at_nodes:
  "map snd (findNodesById_at nodeId p nodeSet hits) = findNodesById nodeId nodeSet (map snd hits)"
  "map snd (findNodesById_at_forEach nodeId p i nodeSet hits)
     = findNodesById_forEach nodeId nodeSet (map snd hits)"
proof (induction nodeId p nodeSet hits and nodeId p i nodeSet hits
       rule: findNodesById_at_findNodesById_at_forEach.induct)
  case (1 nodeId p nodeSet hits)
  show ?case
  proof (cases "hits = []")
    case True
    then show ?thesis using 1
      by (simp add: findNodesById_at.simps(1) findNodesById.simps(1) located_filter)
  next
    case False
    then show ?thesis by (simp add: findNodesById_at.simps(1) findNodesById.simps(1))
  qed
next
  case (2 nodeId p i hits)
  then show ?case by simp
next
  case (3 nodeId p i nm attrs j col ch uch rest hits)
  show ?case
  proof (cases "\<exists>c cs. uch = Some (c # cs)")
    case True
    then obtain c cs where u: "uch = Some (c # cs)" by auto
    show ?thesis using 3(1)[OF u refl] 3(2)[of] u by simp
  next
    case False
    then have "(case uch of None \<Rightarrow> hits | Some [] \<Rightarrow> hits
                | Some (c # cs) \<Rightarrow> findNodesById_at nodeId (p @ [i]) (c # cs) hits) = hits"
      by (auto split: option.splits list.splits)
    moreover have "(case uch of None \<Rightarrow> map snd hits | Some [] \<Rightarrow> map snd hits
                | Some (c # cs) \<Rightarrow> findNodesById nodeId (c # cs) (map snd hits)) = map snd hits"
      using False by (auto split: option.splits list.splits)
    ultimately show ?thesis using 3(2) by simp
  qed
qed

lemma located_set:
  "(r, n) \<in> set (located p i ns) \<Longrightarrow> \<exists>j < length ns. r = p @ [i + j] \<and> n = ns ! j"
proof (induction ns arbitrary: i)
  case Nil
  then show ?case by simp
next
  case (Cons a ns)
  from Cons.prems have "(r = p @ [i] \<and> n = a) \<or> (r, n) \<in> set (located p (Suc i) ns)" by auto
  then show ?case
  proof
    assume "r = p @ [i] \<and> n = a"
    then show ?thesis by (intro exI[of _ 0]) simp
  next
    assume "(r, n) \<in> set (located p (Suc i) ns)"
    from Cons.IH[OF this] obtain j where "j < length ns" "r = p @ [Suc i + j]" "n = ns ! j" by auto
    then show ?thesis by (intro exI[of _ "Suc j"]) simp
  qed
qed

lemma findNodesById_at_refs:
  "(r, n) \<in> set (findNodesById_at nodeId p nodeSet hits) \<Longrightarrow>
     (r, n) \<in> set hits \<or> (\<exists>q. r = p @ q \<and> node_at q nodeSet = Some n)"
  "(r, n) \<in> set (findNodesById_at_forEach nodeId p i nodeSet hits) \<Longrightarrow>
     (r, n) \<in> set hits \<or>
     (\<exists>j q. j < length nodeSet \<and> r = p @ (i + j) # q \<and>
        (\<exists>cs. u_children (nodeSet ! j) = Some cs \<and> node_at q cs = Some n))"
proof (induction nodeId p nodeSet hits and nodeId p i nodeSet hits
       rule: findNodesById_at_findNodesById_at_forEach.induct)
  case (1 nodeId p nodeSet hits)
  show ?case
  proof (cases "hits = []")
    case False
    with 1(2) show ?thesis by (simp add: findNodesById_at.simps(1))
  next
    case True
    let ?top = "filter (\<lambda>(r, node). node_id node = nodeId) (located p 0 nodeSet)"
    from 1(2) True have "(r, n) \<in> set (findNodesById_at_forEach nodeId p 0 nodeSet (hits @ ?top))"
      by (simp add: findNodesById_at.simps(1))
    from 1(1)[OF _ this] True
    consider "(r, n) \<in> set ?top"
      | j q cs where "j < length nodeSet" "r = p @ j # q" "u_children (nodeSet ! j) = Some cs"
          "node_at q cs = Some n"
      by auto
    then show ?thesis
    proof cases
      case 1
      then have "(r, n) \<in> set (located p 0 nodeSet)" by simp
      from located_set[OF this] obtain j where "j < length nodeSet" "r = p @ [j]" "n = nodeSet ! j"
        by auto
      then have "r = p @ [j] \<and> node_at [j] nodeSet = Some n" by simp
      then show ?thesis by blast
    next
      case 2
      from 2(4) have "q \<noteq> []" by auto
      with 2 have "r = p @ (j # q) \<and> node_at (j # q) nodeSet = Some n" by simp
      then show ?thesis by blast
    qed
  qed
next
  case (2 nodeId p i hits)
  then show ?case by simp
next
  case (3 nodeId p i nm attrs k col ch uch rest hits)
  let ?step = "(case uch of None \<Rightarrow> hits | Some [] \<Rightarrow> hits
                | Some (c # cs) \<Rightarrow> findNodesById_at nodeId (p @ [i]) (c # cs) hits)"
  from 3(3) have "(r, n) \<in> set (findNodesById_at_forEach nodeId p (Suc i) rest ?step)" by simp
  from 3(2)[OF this]
  consider "(r, n) \<in> set ?step"
    | j q cs where "j < length rest" "r = p @ (Suc i + j) # q" "u_children (rest ! j) = Some cs"
        "node_at q cs = Some n"
    by auto
  then show ?case
  proof cases
    case 2
    then have "Suc j < length (Node nm attrs k col ch uch # rest) \<and> r = p @ (i + Suc j) # q \<and>
      (\<exists>cs. u_children ((Node nm attrs k col ch uch # rest) ! Suc j) = Some cs \<and> node_at q cs = Some n)"
      by simp
    then show ?thesis by blast
  next
    case 1
    show ?thesis
    proof (cases "\<exists>c cs. uch = Some (c # cs)")
      case False
      then have "?step = hits" by (auto split: option.splits list.splits)
      with 1 show ?thesis by simp
    next
      case True
      then obtain c cs where u: "uch = Some (c # cs)" by auto
      with 1 have "(r, n) \<in> set (findNodesById_at nodeId (p @ [i]) (c # cs) hits)" by simp
      from 3(1)[OF u refl this] show ?thesis
      proof
        assume "(r, n) \<in> set hits" then show ?thesis by simp
      next
        assume "\<exists>q. r = (p @ [i]) @ q \<and> node_at q (c # cs) = Some n"
        then obtain q where q: "r = (p @ [i]) @ q" "node_at q (c # cs) = Some n" by auto
        have "0 < length (Node nm attrs k col ch uch # rest) \<and> r = p @ (i + 0) # q \<and>
          (\<exists>cs'. u_children ((Node nm attrs k col ch uch # rest) ! 0) = Some cs' \<and> node_at q cs' = Some n)"
          using q u by simp
        then show ?thesis by blast
      qed
    qed
  qed
qed

lemma lookup_present:
  assumes "nodeId \<in> node_id ` set (all_nodes ns)"
  shows "\<exists>r n rest. findNodesById_at nodeId [] ns [] = (r, n) # rest
           \<and> node_at r ns = Some n \<and> node_id n = nodeId"
proof -
  have "map snd (findNodesById_at nodeId [] ns []) \<noteq> []"
    using find_present(1)[of "[]" nodeId ns] assms by (simp add: findNodesById_at_nodes(1))
  then obtain r n rest where e: "findNodesById_at nodeId [] ns [] = (r, n) # rest"
    by (cases "findNodesById_at nodeId [] ns []") auto
  then have m: "(r, n) \<in> set (findNodesById_at nodeId [] ns [])" by simp
  from findNodesById_at_refs(1)[OF m] have at: "node_at r ns = Some n" by simp
  have "n \<in> set (map snd (findNodesById_at nodeId [] ns []))" using m by force
  then have "n \<in> set (findNodesById nodeId ns [])" by (simp add: findNodesById_at_nodes(1))
  with find_subset(1)[of nodeId ns "[]"] have "node_id n = nodeId" by auto
  with e at show ?thesis by blast
qed

lemma lookup_absent:
  assumes "nodeId \<notin> node_id ` set (all_nodes ns)"
  shows "findNodesById nodeId ns [] = []" "findNodesById_at nodeId [] ns [] = []"
proof -
  show a: "findNodesById nodeId ns [] = []"
  proof (cases "findNodesById nodeId ns []")
    case Nil
    then show ?thesis .
  next
    case (Cons n rest)
    then have "n \<in> set (findNodesById nodeId ns [])" by simp
    with find_subset(1)[of nodeId ns "[]"] have "n \<in> set (all_nodes ns)" "node_id n = nodeId"
      by auto
    with assms show ?thesis by blast
  qed
  have "map snd (findNodesById_at nodeId [] ns []) = []"
    using a by (simp add: findNodesById_at_nodes(1))
  then show "findNodesById_at nodeId [] ns [] = []" by simp
qed

subsection \<open>Collapse and expand\<close>

lemma collapse_subtree:
  "\<forall>d \<in> set (subtree (collapseNode n)). u_collapsed d"
proof (induction n rule: collapseNode.induct)
  case (1 nm attrs i col ch uch)
  show ?case
  proof (cases "\<exists>c cs. uch = Some (c # cs)")
    case True
    then obtain c cs where u: "uch = Some (c # cs)" by auto
    have "\<forall>d \<in> set (all_nodes (map collapseNode (c # cs))). u_collapsed d"
      unfolding set_all_nodes_Un using 1[OF u refl] by auto
    then show ?thesis using u by simp
  next
    case False
    then show ?thesis by (cases uch; cases "the uch") auto
  qed
qed

lemma collapse_clear_flags: "clear_flags (collapseNode n) = clear_flags n"
proof (induction n rule: collapseNode.induct)
  case (1 nm attrs i col ch uch)
  show ?case
  proof (cases "\<exists>c cs. uch = Some (c # cs)")
    case True
    then obtain c cs where u: "uch = Some (c # cs)" by auto
    have "map clear_flags (map collapseNode (c # cs)) = map clear_flags (c # cs)"
      using 1[OF u refl] by (simp del: collapseNode.simps clear_flags.simps)
    then show ?thesis using u by simp
  next
    case False
    then show ?thesis by (cases uch; cases "the uch") auto
  qed
qed

lemma expand_simps:
  "u_collapsed (expandNode n) = False"
  "u_children (expandNode n) = u_children n"
  "node_id (expandNode n) = node_id n"
  "name (expandNode n) = name n"
  "attributes (expandNode n) = attributes n"
  "children (expandNode n) = children n"
  by (cases n; simp)+

lemma collapse_simps:
  "u_collapsed (collapseNode n) = True"
  "node_id (collapseNode n) = node_id n"
  by (cases n; simp)+

subsection \<open>Layout\<close>

lemma result_nodes_generateTree:
  "result_nodes (generateTree walk p st) =
     (case state_data st of
        [] \<Rightarrow> []
      | rootNode # _ \<Rightarrow>
          (let nodes = tree_nodes walk (tree_nodeSize p) (separation_fn (separation p)) rootNode
           in case depthFactor p of
                Some f \<Rightarrow> if f \<noteq> 0 then map (\<lambda>node. node\<lparr>v_y := real (h_depth node) * f\<rparr>) nodes
                          else nodes
              | None \<Rightarrow> nodes))"
  by (simp add: result_nodes_def generateTree_def Let_def split: list.splits option.splits)

lemma v_x_generateTree:
  "map v_x (result_nodes (generateTree walk p st))
     = map (\<lambda>u. u * fst (tree_nodeSize p)) (unit_positions walk p st)"
  by (simp add: result_nodes_generateTree unit_positions_def tree_nodes_def Let_def comp_def
      split: list.splits option.splits)

lemma refs_generateTree:
  "map (\<lambda>v. (h_ref v, h_depth v)) (result_nodes (generateTree walk p st))
     = (case state_data st of [] \<Rightarrow> []
        | rootNode # _ \<Rightarrow> map (\<lambda>h. (h_ref h, h_depth h)) (hierarchy [0] 0 None rootNode))"
  by (simp add: result_nodes_generateTree tree_nodes_def Let_def comp_def
      split: list.splits option.splits)








lemma constructor_star:
  "constructor uuid_sample star_sample 0 =
     \<lparr>state_data = [Node ''root'' [] ''u'' False Same_Array_As_u_children
        (Some [Node ''a'' [] ''uu'' False Absent None,
               Node ''b'' [] ''uuu'' False Absent None])],
      internalState_initialRender = True,
      internalState_targetNode = None,
      onClick_calls = []\<rparr>"
  by (simp add: constructor_def star_sample_def uuid_sample_def clone_def)

lemma star_horizontal:
  "offaxis_pairs (result_nodes (generateTree walk_two_leaves
       (wide_props\<lparr>orientation := Horizontal\<rparr>) (constructor uuid_sample star_sample 0)))
   = {(0, 0), (1, - 100), (1, 100)}"
  by (simp add: constructor_star generateTree_def wide_props_def defaultProps_def tree_nodes_def
      tree_nodeSize_def children_accessor_def result_nodes_def offaxis_pairs_def
      walk_two_leaves_def Let_def)

lemma star_vertical:
  "offaxis_pairs (result_nodes (generateTree walk_two_leaves
       (wide_props\<lparr>orientation := Vertical\<rparr>) (constructor uuid_sample star_sample 0)))
   = {(0, 0), (1, - 50), (1, 50)}"
  by (simp add: constructor_star generateTree_def wide_props_def defaultProps_def tree_nodes_def
      tree_nodeSize_def children_accessor_def result_nodes_def offaxis_pairs_def
      walk_two_leaves_def Let_def)

lemma constructor_chain:
  "constructor uuid_sample chain_sample 0 =
     \<lparr>state_data = [Node ''root'' [] ''u'' False Same_Array_As_u_children
        (Some [Node ''a'' [] ''uu'' False Same_Array_As_u_children
                 (Some [Node ''b'' [] ''uuu'' False Absent None])])],
      internalState_initialRender = True,
      internalState_targetNode = None,
      onClick_calls = []\<rparr>"
  by (simp add: constructor_def chain_sample_def uuid_sample_def clone_def)


subsection \<open>The samples\<close>

lemma ids_tree_sample:
  "node_id ` set (all_nodes (state_data component_sample)) = {''u'', ''uu'', ''uuu'', ''uuuu''}"
  by (auto simp: component_sample_def tree_sample_def)

lemma star_default:
  "offaxis_pairs (result_nodes (generateTree walk_two_leaves
       (defaultProps\<lparr>orientation := ori\<rparr>) (constructor uuid_sample star_sample 0)))
   = {(0, 0), (1, - 70), (1, 70)}"
  by (cases ori)
     (simp_all add: constructor_star generateTree_def defaultProps_def tree_nodes_def
      tree_nodeSize_def children_accessor_def result_nodes_def offaxis_pairs_def
      walk_two_leaves_def Let_def)








lemma first_pass_eval:
  "map (\<lambda>v. (h_ref v, h_depth v)) (result_nodes (first_pass walk))
     = [([0], 0), ([0, 0], 1), ([0, 0, 0], 2)]"
  "result_links (first_pass walk) = [([0], [0, 0]), ([0, 0], [0, 0, 0])]"
  by (simp_all add: first_pass_def constructor_chain generateTree_def defaultProps_def
      tree_nodes_def tree_links_def children_accessor_def result_nodes_def result_links_def
      Let_def)

lemma after_first_pass_eval:
  "after_first_pass walk =
     \<lparr>state_data = [Node ''root'' [] ''u'' False Same_Array_As_u_children
        (Some [Node ''a'' [] ''uu'' True Same_Array_As_u_children
                 (Some [Node ''b'' [] ''uuu'' True Absent None])])],
      internalState_initialRender = False,
      internalState_targetNode = None,
      onClick_calls = []\<rparr>"
  by (simp add: after_first_pass_def first_pass_def constructor_chain generateTree_def
      defaultProps_def tree_nodes_def children_accessor_def result_component_def
      componentDidMount_def Let_def)

lemma second_pass_eval:
  "map (\<lambda>v. (h_ref v, h_depth v))
      (result_nodes (generateTree walk (defaultProps\<lparr>initialDepth := Some 1\<rparr>)
                       (after_first_pass walk)))
     = [([0], 0), ([0, 0], 1)]"
  "result_links (generateTree walk (defaultProps\<lparr>initialDepth := Some 1\<rparr>)
                       (after_first_pass walk))
     = [([0], [0, 0])]"
  "result_component (after_first_pass walk)
      (generateTree walk (defaultProps\<lparr>initialDepth := Some 1\<rparr>) (after_first_pass walk))
     = after_first_pass walk"
  by (simp_all add: after_first_pass_eval generateTree_def defaultProps_def
      tree_nodes_def tree_links_def children_accessor_def result_nodes_def result_links_def
      result_component_def Let_def)

lemma after_click_eval:
  "after_click walk =
     \<lparr>state_data = [Node ''root'' [] ''u'' False Same_Array_As_u_children
        (Some [Node ''a'' [] ''uu'' False Same_Array_As_u_children
                 (Some [Node ''b'' [] ''uuu'' True Absent None])])],
      internalState_initialRender = False,
      internalState_targetNode =
        Some (Node ''a'' [] ''uu'' False Same_Array_As_u_children
                 (Some [Node ''b'' [] ''uuu'' True Absent None])),
      onClick_calls = []\<rparr>"
  by (simp add: after_click_def after_first_pass_eval handleNodeToggle_def handleOnClickCb_def
      defaultProps_def clone_def findNodesById_at.simps(1))

lemma third_pass_eval:
  "map (\<lambda>v. (h_ref v, h_depth v))
      (result_nodes (generateTree walk (defaultProps\<lparr>initialDepth := Some 1\<rparr>)
                       (after_click walk)))
     = [([0], 0), ([0, 0], 1), ([0, 0, 0], 2)]"
  "result_component (after_click walk)
      (generateTree walk (defaultProps\<lparr>initialDepth := Some 1\<rparr>) (after_click walk))
     = after_click walk"
  by (simp_all add: after_click_eval generateTree_def defaultProps_def
      tree_nodes_def children_accessor_def result_nodes_def result_component_def Let_def)

section \<open>The claims\<close>

subsection \<open>Identity assignment and lookup\<close>

text \<open>
  Claim C10. Let \<open>uuid\<close> return distinct values. After \<open>assignInternalProperties\<close>: the
  identifiers of the nodes, parents first, are the values of the run's own calls of
  \<open>uuid\<close> in order, so each node has a fresh identifier and no two nodes share one; no
  node is collapsed; a node either has a non-empty \<^verbatim>\<open>_children\<close> array and \<^verbatim>\<open>children\<close> is
  that very array, or it has no \<^verbatim>\<open>_children\<close>, its \<^verbatim>\<open>children\<close> is absent or the empty raw
  array, and nothing is below it. Every input node is assigned: read back as raw input,
  the result is the input itself, node for node. A raw node
  with children becomes a node whose \<^verbatim>\<open>_children\<close> is the result of assigning its children,
  which carry their identifiers already; a raw node with no \<^verbatim>\<open>children\<close> property or an
  empty one becomes a leaf. The function is total: no input raises an error.
\<close>

theorem assignInternalProperties_assigns:
  assumes "inj uuid"
    and "assignInternalProperties uuid rawNodes k = (assigned, k')"
  shows "map node_id (all_nodes assigned) = map uuid [k..<k']
     \<and> distinct (map node_id (all_nodes assigned))
     \<and> (\<forall>n \<in> set (all_nodes assigned). \<not> u_collapsed n)
     \<and> (\<forall>n \<in> set (all_nodes assigned).
           case u_children n of
             Some cs \<Rightarrow> cs \<noteq> [] \<and> children n = Same_Array_As_u_children
           | None \<Rightarrow> children n \<noteq> Same_Array_As_u_children \<and> descendants n = [])
     \<and> map raw_of assigned = rawNodes
     \<and> map name assigned = map raw_name rawNodes
     \<and> (\<forall>nm attrs c cs j. \<exists>kids j'.
           assignInternalProperties uuid (c # cs) (Suc j) = (kids, j')
           \<and> assign_node uuid (Raw nm attrs (Some (c # cs))) j
               = (Node nm attrs (uuid j) False Same_Array_As_u_children (Some kids), j')
           \<and> map node_id (all_nodes kids) = map uuid [Suc j..<j']
           \<and> map name kids = map raw_name (c # cs))
     \<and> (\<forall>nm attrs j.
           assign_node uuid (Raw nm attrs None) j = (Node nm attrs (uuid j) False Absent None, Suc j)
           \<and> assign_node uuid (Raw nm attrs (Some [])) j
               = (Node nm attrs (uuid j) False Empty_Array None, Suc j))"
proof -
  have ids: "map node_id (all_nodes assigned) = map uuid [k..<k']"
    using assign_ids(1)[OF assms(2)] by simp
  have "distinct (map uuid [k..<k'])"
    using assms(1) by (simp add: distinct_map inj_on_def inj_def)
  then have d: "distinct (map node_id (all_nodes assigned))" using ids by simp
  have f: "\<forall>n \<in> set (all_nodes assigned). \<not> u_collapsed n \<and>
           (case u_children n of
             Some cs \<Rightarrow> cs \<noteq> [] \<and> children n = Same_Array_As_u_children
           | None \<Rightarrow> children n \<noteq> Same_Array_As_u_children \<and> descendants n = [])"
    using assign_flags(1)[OF assms(2)] by (auto simp: descendants_def split: option.splits)
  have kids: "\<exists>kids j'.
           assignInternalProperties uuid (c # cs) (Suc j) = (kids, j')
           \<and> assign_node uuid (Raw nm attrs (Some (c # cs))) j
               = (Node nm attrs (uuid j) False Same_Array_As_u_children (Some kids), j')
           \<and> map node_id (all_nodes kids) = map uuid [Suc j..<j']
           \<and> map name kids = map raw_name (c # cs)" for nm attrs c cs j
  proof -
    obtain kids j' where a: "assignInternalProperties uuid (c # cs) (Suc j) = (kids, j')"
      by (cases "assignInternalProperties uuid (c # cs) (Suc j)")
    have "assign_node uuid (Raw nm attrs (Some (c # cs))) j
               = (Node nm attrs (uuid j) False Same_Array_As_u_children (Some kids), j')"
      using a by simp
    then show ?thesis using a assign_ids(1)[OF a] assign_names[OF a] by blast
  qed
  show ?thesis using ids d f kids assign_names[OF assms(2)] assign_raw_of(1)[OF assms(2)] by simp
qed

text \<open>
  The sample input, with the identifiers \<open>u\<close>, \<open>uu\<close>, \<open>uuu\<close> and \<open>uuuu\<close>, and two
  top nodes of which the second has a child.
\<close>

theorem assignInternalProperties_assigns_witness:
  "inj uuid_sample
   \<and> assignInternalProperties uuid_sample raw_sample 0 = (map clear_flags tree_sample, 4)
   \<and> map node_id (all_nodes (map clear_flags tree_sample)) = [''u'', ''uu'', ''uuu'', ''uuuu'']
   \<and> distinct (map node_id (all_nodes (map clear_flags tree_sample)))
   \<and> list_all (\<lambda>n. \<not> u_collapsed n) (all_nodes (map clear_flags tree_sample))
   \<and> map name (map clear_flags tree_sample) = map raw_name raw_sample
   \<and> map raw_of (map clear_flags tree_sample) = raw_sample
   \<and> assignInternalProperties uuid_sample raw_pair 0 =
       ([Node ''p'' [] ''u'' False Absent None,
         Node ''q'' [(''k'', ''v'')] ''uu'' False Same_Array_As_u_children
           (Some [Node ''q1'' [] ''uuu'' False Absent None])], 3)
   \<and> map raw_of [Node ''p'' [] ''u'' False Absent None,
         Node ''q'' [(''k'', ''v'')] ''uu'' False Same_Array_As_u_children
           (Some [Node ''q1'' [] ''uuu'' False Absent None])] = raw_pair
   \<and> map node_id (all_nodes [Node ''p'' [] ''u'' False Absent None,
         Node ''q'' [(''k'', ''v'')] ''uu'' False Same_Array_As_u_children
           (Some [Node ''q1'' [] ''uuu'' False Absent None])]) = [''u'', ''uu'', ''uuu'']"
proof -
  note T = assignInternalProperties_assigns[OF inj_uuid_sample assign_sample]
  have u: "map uuid_sample [0..<4] = [''u'', ''uu'', ''uuu'', ''uuuu'']"
    by (simp add: uuid_sample_def upt_rec numeral_eq_Suc)
  from T have a: "map node_id (all_nodes (map clear_flags tree_sample)) = map uuid_sample [0..<4]"
    by blast
  from T have b: "distinct (map node_id (all_nodes (map clear_flags tree_sample)))" by blast
  from T have "\<forall>n \<in> set (all_nodes (map clear_flags tree_sample)). \<not> u_collapsed n" by blast
  then have c: "list_all (\<lambda>n. \<not> u_collapsed n) (all_nodes (map clear_flags tree_sample))"
    by (simp add: list_all_iff)
  from T have d: "map name (map clear_flags tree_sample) = map raw_name raw_sample" by blast
  from T have e: "map raw_of (map clear_flags tree_sample) = raw_sample" by blast
  note P = assignInternalProperties_assigns[OF inj_uuid_sample assign_pair]
  have u3: "map uuid_sample [0..<3] = [''u'', ''uu'', ''uuu'']"
    by (simp add: uuid_sample_def upt_rec numeral_eq_Suc)
  from P have f: "map raw_of [Node ''p'' [] ''u'' False Absent None,
         Node ''q'' [(''k'', ''v'')] ''uu'' False Same_Array_As_u_children
           (Some [Node ''q1'' [] ''uuu'' False Absent None])] = raw_pair" by blast
  from P have "map node_id (all_nodes [Node ''p'' [] ''u'' False Absent None,
         Node ''q'' [(''k'', ''v'')] ''uu'' False Same_Array_As_u_children
           (Some [Node ''q1'' [] ''uuu'' False Absent None])]) = map uuid_sample [0..<3]" by blast
  then have g: "map node_id (all_nodes [Node ''p'' [] ''u'' False Absent None,
         Node ''q'' [(''k'', ''v'')] ''uu'' False Same_Array_As_u_children
           (Some [Node ''q1'' [] ''uuu'' False Absent None])]) = [''u'', ''uu'', ''uuu'']"
    unfolding u3 .
  show ?thesis
    by (intro conjI inj_uuid_sample assign_sample a[unfolded u] b c d e assign_pair f g)
qed

text \<open>
  Claim C1. Let \<open>uuid\<close> return distinct values, let \<open>assigned\<close> be the result of
  \<open>assignInternalProperties\<close> on a raw input and \<open>tree\<close> the same tree with any
  \<^verbatim>\<open>_collapsed\<close> flags. For an identifier assigned to a node, \<open>findNodesById nodeId tree []\<close>
  is a list of exactly one node, which carries the identifier and is a node of the tree,
  collapsed ancestors or not; for every other string it is the empty list. A call with
  hits already accumulated returns them at once, and when nodes of the node set carry
  the identifier the result is those nodes: the node set is checked before any child
  array.
\<close>

theorem findNodesById_after_assign:
  assumes "inj uuid"
    and "assignInternalProperties uuid rawNodes k = (assigned, k')"
    and "map clear_flags tree = assigned"
  shows "(nodeId \<in> uuid ` {k..<k'} \<longrightarrow>
            (\<exists>n. findNodesById nodeId tree [] = [n] \<and> node_id n = nodeId
                 \<and> n \<in> set (all_nodes tree)))
       \<and> (nodeId \<notin> uuid ` {k..<k'} \<longrightarrow> findNodesById nodeId tree [] = [])
       \<and> node_id ` set (all_nodes tree) = uuid ` {k..<k'}
       \<and> (\<forall>nodeSet hits. hits \<noteq> [] \<longrightarrow> findNodesById nodeId nodeSet hits = hits)
       \<and> (\<forall>nodeSet. filter (\<lambda>node. node_id node = nodeId) nodeSet \<noteq> [] \<longrightarrow>
             findNodesById nodeId nodeSet [] = filter (\<lambda>node. node_id node = nodeId) nodeSet)"
proof -
  have ids: "map node_id (all_nodes tree) = map uuid [k..<k']"
    using assign_ids(1)[OF assms(2)] clear_flags_ids(1)[of tree] assms(3) by simp
  have "distinct (map uuid [k..<k'])"
    using assms(1) by (simp add: distinct_map inj_on_def inj_def)
  then have d: "distinct (map node_id (all_nodes tree))" using ids by simp
  have s: "node_id ` set (all_nodes tree) = uuid ` {k..<k'}"
    using arg_cong[OF ids, of set] by simp
  have top: "findNodesById nodeId nodeSet [] = filter (\<lambda>node. node_id node = nodeId) nodeSet"
    if "filter (\<lambda>node. node_id node = nodeId) nodeSet \<noteq> []" for nodeSet
    using that by (simp add: findNodesById.simps(1) forEach_hits)
  show ?thesis using find_unique(1)[OF refl d, of nodeId] s find_hits top by auto
qed

text \<open>
  In the sample tree \<open>b\<close> lies below the collapsed \<open>a\<close> and is found; \<open>zzz\<close> is no
  identifier of the tree.
\<close>

theorem findNodesById_after_assign_witness:
  "inj uuid_sample
   \<and> assignInternalProperties uuid_sample raw_sample 0 = (map clear_flags tree_sample, 4)
   \<and> ''uuu'' \<in> uuid_sample ` {0..<4}
   \<and> (\<exists>n. findNodesById ''uuu'' tree_sample [] = [n] \<and> node_id n = ''uuu''
          \<and> n \<in> set (all_nodes tree_sample))
   \<and> ''zzz'' \<notin> uuid_sample ` {0..<4}
   \<and> findNodesById ''zzz'' tree_sample [] = []
   \<and> findNodesById ''uuu'' tree_sample [] = [Node ''b'' [] ''uuu'' True Absent None]"
proof -
  have mem: "''uuu'' \<in> uuid_sample ` {0..<4}"
    by (rule image_eqI[of _ _ 2]) (simp_all add: uuid_sample_def numeral_2_eq_2)
  have nmem: "''zzz'' \<notin> uuid_sample ` {0..<4}"
    by (auto simp: uuid_sample_def)
  note T = findNodesById_after_assign[OF inj_uuid_sample assign_sample refl]
  from T[of "''uuu''"] mem have a: "\<exists>n. findNodesById ''uuu'' tree_sample [] = [n] \<and> node_id n = ''uuu''
          \<and> n \<in> set (all_nodes tree_sample)" by blast
  from T[of "''zzz''"] nmem have b: "findNodesById ''zzz'' tree_sample [] = []" by blast
  have c: "findNodesById ''uuu'' tree_sample [] = [Node ''b'' [] ''uuu'' True Absent None]"
    by (simp add: tree_sample_def findNodesById.simps(1))
  show ?thesis using inj_uuid_sample assign_sample mem a nmem b c by blast
qed


subsection \<open>Collapse and expand\<close>

text \<open>
  Claim C2. For every node \<open>n\<close>, whatever the flags were: after \<open>collapseNode n\<close> the
  node is collapsed and so is every node below it through the \<^verbatim>\<open>_children\<close> arrays.
  Nothing but flags changes, the nodes keep their identifiers, and for a node object
  of a tree the call leaves that collapsed node at its place.
\<close>

theorem collapseNode_collapses_subtree:
  "u_collapsed (collapseNode n)
   \<and> (\<forall>d \<in> set (descendants (collapseNode n)). u_collapsed d)
   \<and> clear_flags (collapseNode n) = clear_flags n
   \<and> map node_id (subtree (collapseNode n)) = map node_id (subtree n)
   \<and> (node_at r tree = Some n \<longrightarrow>
         node_at r (modify_at r collapseNode tree) = Some (collapseNode n))"
proof -
  have "\<forall>d \<in> set (descendants (collapseNode n)). u_collapsed d"
    using collapse_subtree[of n] by (simp add: subtree_eq)
  moreover have "map node_id (subtree (collapseNode n)) = map node_id (subtree n)"
    using clear_flags_ids(2)[of "collapseNode n"] clear_flags_ids(2)[of n]
    by (simp add: collapse_clear_flags)
  ultimately show ?thesis
    by (simp add: collapse_simps collapse_clear_flags node_at_modify_at_same)
qed

text \<open>
  A root with the descendants \<open>a\<close>, \<open>b\<close> and \<open>c\<close>, of which only \<open>a\<close> was collapsed.
\<close>

theorem collapseNode_collapses_subtree_witness:
  "node_at [0] [node_sample] = Some node_sample
   \<and> map u_collapsed (subtree node_sample) = [False, True, False, False]
   \<and> u_collapsed (collapseNode node_sample)
   \<and> list_all u_collapsed (descendants (collapseNode node_sample))
   \<and> map node_id (descendants (collapseNode node_sample)) = [''uu'', ''uuu'', ''uuuu'']
   \<and> node_at [0] (modify_at [0] collapseNode [node_sample]) = Some (collapseNode node_sample)"
proof -
  note T = collapseNode_collapses_subtree[of node_sample "[0]" "[node_sample]"]
  have a: "node_at [0] [node_sample] = Some node_sample" by simp
  have b: "map u_collapsed (subtree node_sample) = [False, True, False, False]"
    by (simp add: node_sample_def)
  from T have c: "u_collapsed (collapseNode node_sample)" by blast
  from T have "\<forall>d \<in> set (descendants (collapseNode node_sample)). u_collapsed d" by blast
  then have d: "list_all u_collapsed (descendants (collapseNode node_sample))"
    by (simp add: list_all_iff)
  have e: "map node_id (descendants (collapseNode node_sample)) = [''uu'', ''uuu'', ''uuuu'']"
    by (simp add: node_sample_def descendants_def)
  from T a have f: "node_at [0] (modify_at [0] collapseNode [node_sample]) = Some (collapseNode node_sample)"
    by blast
  show ?thesis using a b c d e f by blast
qed

text \<open>
  Claim C3. \<open>expandNode n\<close> clears the flag of \<open>n\<close> and leaves its \<^verbatim>\<open>_children\<close>, hence
  every node below it, as they were; in a tree, expanding the node at \<open>r\<close> changes the
  flag of no node at another place. After \<open>collapseNode n\<close> and then \<open>expandNode n\<close> the
  node is expanded and every node strictly below it is still collapsed.
\<close>

theorem expandNode_only_target:
  "\<not> u_collapsed (expandNode n)
   \<and> u_children (expandNode n) = u_children n
   \<and> descendants (expandNode n) = descendants n
   \<and> (node_at r tree = Some n \<longrightarrow>
         node_at r (modify_at r expandNode tree) = Some (expandNode n))
   \<and> (\<forall>q. q \<noteq> r \<longrightarrow>
         map_option u_collapsed (node_at q (modify_at r expandNode tree))
           = map_option u_collapsed (node_at q tree))
   \<and> \<not> u_collapsed (expandNode (collapseNode n))
   \<and> (\<forall>d \<in> set (descendants (expandNode (collapseNode n))). u_collapsed d)"
proof -
  have a: "descendants (expandNode m) = descendants m" for m
    by (simp add: descendants_def expand_simps)
  have b: "\<forall>d \<in> set (descendants (collapseNode n)). u_collapsed d"
    using collapse_subtree[of n] by (simp add: subtree_eq)
  have c: "\<forall>q. q \<noteq> r \<longrightarrow>
         map_option u_collapsed (node_at q (modify_at r expandNode tree))
           = map_option u_collapsed (node_at q tree)"
    using node_at_modify_at_flag[of expandNode _ r tree] by (simp add: expand_simps)
  show ?thesis using a b c by (simp add: expand_simps node_at_modify_at_same)
qed

text \<open>
  Expanding \<open>a\<close> in the sample tree leaves \<open>b\<close> collapsed.
\<close>

theorem expandNode_only_target_witness:
  "node_at [0, 0] tree_sample
     = Some (Node ''a'' [(''role'', ''x'')] ''uu'' True Same_Array_As_u_children
               (Some [Node ''b'' [] ''uuu'' True Absent None]))
   \<and> node_at [0, 0] (modify_at [0, 0] expandNode tree_sample)
     = Some (Node ''a'' [(''role'', ''x'')] ''uu'' False Same_Array_As_u_children
               (Some [Node ''b'' [] ''uuu'' True Absent None]))
   \<and> [0, 0, 0] \<noteq> [0, 0 :: nat]
   \<and> map_option u_collapsed (node_at [0, 0, 0] (modify_at [0, 0] expandNode tree_sample))
     = Some True
   \<and> list_all u_collapsed (descendants (expandNode (collapseNode node_sample)))
   \<and> \<not> u_collapsed (expandNode (collapseNode node_sample))
   \<and> descendants (expandNode (collapseNode node_sample)) \<noteq> []"
proof -
  let ?a = "Node ''a'' [(''role'', ''x'')] ''uu'' True Same_Array_As_u_children
               (Some [Node ''b'' [] ''uuu'' True Absent None])"
  note T = expandNode_only_target[of ?a "[0, 0]" tree_sample]
  note U = expandNode_only_target[of node_sample "[]" "[]"]
  have a: "node_at [0, 0] tree_sample = Some ?a" by (simp add: tree_sample_def)
  from T a have "node_at [0, 0] (modify_at [0, 0] expandNode tree_sample) = Some (expandNode ?a)"
    by blast
  then have b: "node_at [0, 0] (modify_at [0, 0] expandNode tree_sample)
     = Some (Node ''a'' [(''role'', ''x'')] ''uu'' False Same_Array_As_u_children
               (Some [Node ''b'' [] ''uuu'' True Absent None]))" by simp
  have ne: "[0, 0, 0] \<noteq> [0, 0 :: nat]" by simp
  from T ne have "map_option u_collapsed (node_at [0, 0, 0] (modify_at [0, 0] expandNode tree_sample))
           = map_option u_collapsed (node_at [0, 0, 0] tree_sample)" by blast
  then have c: "map_option u_collapsed (node_at [0, 0, 0] (modify_at [0, 0] expandNode tree_sample))
     = Some True" by (simp add: tree_sample_def)
  from U have "\<forall>d \<in> set (descendants (expandNode (collapseNode node_sample))). u_collapsed d"
    by blast
  then have d: "list_all u_collapsed (descendants (expandNode (collapseNode node_sample)))"
    by (simp add: list_all_iff)
  from U have e: "\<not> u_collapsed (expandNode (collapseNode node_sample))" by blast
  have f: "descendants (expandNode (collapseNode node_sample)) \<noteq> []"
    by (simp add: node_sample_def descendants_def)
  show ?thesis using a b ne c d e f by blast
qed

subsection \<open>Toggling a node\<close>

text \<open>
  Claim C4. Let \<open>nodeId\<close> be the identifier of a node of \<^verbatim>\<open>state.data\<close>. The handler
  finds a node object \<open>n\<close> with that identifier at some place \<open>r\<close>. In collapsible mode
  it raises no error, the new \<^verbatim>\<open>state.data\<close> is the old one with \<open>expandNode\<close> applied to
  that object if it was collapsed and \<open>collapseNode\<close> otherwise, the object is recorded
  as \<^verbatim>\<open>targetNode\<close>, and \<^verbatim>\<open>onClick\<close>, if given, receives it. With collapsible mode off it
  raises no error, \<^verbatim>\<open>onClick\<close>, if given, receives the node as it is, and \<^verbatim>\<open>state.data\<close>
  and \<^verbatim>\<open>targetNode\<close> stay as they were.
\<close>

theorem handleNodeToggle_present:
  assumes "nodeId \<in> node_id ` set (all_nodes (state_data st))"
  shows "\<exists>r n. node_at r (state_data st) = Some n \<and> node_id n = nodeId
     \<and> (collapsible p \<longrightarrow>
          (\<exists>st'. handleNodeToggle p nodeId evt st = Inr st'
             \<and> state_data st' =
                 modify_at r (\<lambda>m. if u_collapsed m then expandNode m else collapseNode m)
                   (state_data st)
             \<and> node_at r (state_data st')
                 = Some (if u_collapsed n then expandNode n else collapseNode n)
             \<and> internalState_targetNode st'
                 = Some (if u_collapsed n then expandNode n else collapseNode n)
             \<and> onClick_calls st' =
                 (if onClick_given p
                  then onClick_calls st
                         @ [(Some (if u_collapsed n then expandNode n else collapseNode n), evt)]
                  else onClick_calls st)))
     \<and> (\<not> collapsible p \<longrightarrow>
          (\<exists>st'. handleNodeToggle p nodeId evt st = Inr st'
             \<and> state_data st' = state_data st
             \<and> internalState_targetNode st' = internalState_targetNode st
             \<and> onClick_calls st' =
                 (if onClick_given p then onClick_calls st @ [(Some n, evt)]
                  else onClick_calls st)))"
proof -
  from lookup_present[OF assms] obtain r n rest where
    e: "findNodesById_at nodeId [] (state_data st) [] = (r, n) # rest"
    and at: "node_at r (state_data st) = Some n" and i: "node_id n = nodeId" by blast
  let ?t = "\<lambda>m. if u_collapsed m then expandNode m else collapseNode m"
  have m: "node_at r (modify_at r ?t (state_data st)) = Some (?t n)"
    by (rule node_at_modify_at_same[OF at])
  have c: "\<exists>st'. handleNodeToggle p nodeId evt st = Inr st'
             \<and> state_data st' = modify_at r ?t (state_data st)
             \<and> node_at r (state_data st') = Some (?t n)
             \<and> internalState_targetNode st' = Some (?t n)
             \<and> onClick_calls st' =
                 (if onClick_given p then onClick_calls st @ [(Some (?t n), evt)]
                  else onClick_calls st)" if "collapsible p"
    using e that m by (simp add: handleNodeToggle_def handleOnClickCb_def clone_def Let_def)
  have d: "\<exists>st'. handleNodeToggle p nodeId evt st = Inr st'
             \<and> state_data st' = state_data st
             \<and> internalState_targetNode st' = internalState_targetNode st
             \<and> onClick_calls st' =
                 (if onClick_given p then onClick_calls st @ [(Some n, evt)]
                  else onClick_calls st)" if "\<not> collapsible p"
    using e that by (simp add: handleNodeToggle_def handleOnClickCb_def clone_def Let_def)
  show ?thesis using at i c d by blast
qed

text \<open>
  A click on the collapsed \<open>a\<close> of the sample tree, in both modes.
\<close>

theorem handleNodeToggle_present_witness:
  "''uu'' \<in> node_id ` set (all_nodes (state_data component_sample))
   \<and> collapsible defaultProps
   \<and> (\<exists>r n st'. node_at r (state_data component_sample) = Some n \<and> node_id n = ''uu''
         \<and> handleNodeToggle defaultProps ''uu'' ''click'' component_sample = Inr st'
         \<and> node_at r (state_data st')
             = Some (if u_collapsed n then expandNode n else collapseNode n))
   \<and> handleNodeToggle defaultProps ''uu'' ''click'' component_sample
       = Inr (component_sample
               \<lparr>state_data := modify_at [0, 0] expandNode tree_sample,
                internalState_targetNode :=
                  Some (Node ''a'' [(''role'', ''x'')] ''uu'' False Same_Array_As_u_children
                          (Some [Node ''b'' [] ''uuu'' True Absent None]))\<rparr>)
   \<and> \<not> collapsible (defaultProps\<lparr>collapsible := False, onClick_given := True\<rparr>)
   \<and> handleNodeToggle (defaultProps\<lparr>collapsible := False, onClick_given := True\<rparr>)
        ''uu'' ''click'' component_sample
       = Inr (component_sample
               \<lparr>onClick_calls :=
                  [(Some (Node ''a'' [(''role'', ''x'')] ''uu'' True Same_Array_As_u_children
                            (Some [Node ''b'' [] ''uuu'' True Absent None])), ''click'')]\<rparr>)"
proof -
  have mem: "''uu'' \<in> node_id ` set (all_nodes (state_data component_sample))"
    by (simp add: ids_tree_sample)
  have col: "collapsible defaultProps" by (simp add: defaultProps_def)
  from handleNodeToggle_present[OF mem, of defaultProps "''click''"] col
  have a: "\<exists>r n st'. node_at r (state_data component_sample) = Some n \<and> node_id n = ''uu''
         \<and> handleNodeToggle defaultProps ''uu'' ''click'' component_sample = Inr st'
         \<and> node_at r (state_data st')
             = Some (if u_collapsed n then expandNode n else collapseNode n)"
    by blast
  have b: "handleNodeToggle defaultProps ''uu'' ''click'' component_sample
       = Inr (component_sample
               \<lparr>state_data := modify_at [0, 0] expandNode tree_sample,
                internalState_targetNode :=
                  Some (Node ''a'' [(''role'', ''x'')] ''uu'' False Same_Array_As_u_children
                          (Some [Node ''b'' [] ''uuu'' True Absent None]))\<rparr>)"
    by (simp add: handleNodeToggle_def handleOnClickCb_def defaultProps_def
        component_sample_def tree_sample_def clone_def findNodesById_at.simps(1))
  have ncol: "\<not> collapsible (defaultProps\<lparr>collapsible := False, onClick_given := True\<rparr>)"
    by simp
  have c: "handleNodeToggle (defaultProps\<lparr>collapsible := False, onClick_given := True\<rparr>)
        ''uu'' ''click'' component_sample
       = Inr (component_sample
               \<lparr>onClick_calls :=
                  [(Some (Node ''a'' [(''role'', ''x'')] ''uu'' True Same_Array_As_u_children
                            (Some [Node ''b'' [] ''uuu'' True Absent None])), ''click'')]\<rparr>)"
    by (simp add: handleNodeToggle_def handleOnClickCb_def defaultProps_def
        component_sample_def tree_sample_def clone_def findNodesById_at.simps(1))
  show ?thesis using mem col a b ncol c by blast
qed

text \<open>
  Claim C5, as amended. Let \<open>nodeId\<close> be the identifier of no node of \<^verbatim>\<open>state.data\<close>.
  The lookup returns the empty list. With collapsible mode off the handler raises no
  error and leaves \<^verbatim>\<open>state.data\<close> and \<^verbatim>\<open>targetNode\<close> as they were; \<^verbatim>\<open>onClick\<close>, if given,
  is called with \<^verbatim>\<open>undefined\<close> for the node.
\<close>

theorem handleNodeToggle_absent:
  assumes "nodeId \<notin> node_id ` set (all_nodes (state_data st))"
  shows "findNodesById nodeId (clone (state_data st)) [] = []
     \<and> (\<not> collapsible p \<longrightarrow>
          (\<exists>st'. handleNodeToggle p nodeId evt st = Inr st'
                \<and> state_data st' = state_data st
                \<and> internalState_targetNode st' = internalState_targetNode st
                \<and> onClick_calls st' =
                    (if onClick_given p then onClick_calls st @ [(None, evt)]
                     else onClick_calls st)))"
  using lookup_absent[OF assms]
  by (simp add: handleNodeToggle_def handleOnClickCb_def clone_def)

text \<open>
  An unknown identifier on the sample component, collapsible mode off.
\<close>

theorem handleNodeToggle_absent_witness:
  "''zzz'' \<notin> node_id ` set (all_nodes (state_data component_sample))
   \<and> findNodesById ''zzz'' (clone (state_data component_sample)) [] = []
   \<and> \<not> collapsible (defaultProps\<lparr>collapsible := False\<rparr>)
   \<and> (\<exists>st'. handleNodeToggle (defaultProps\<lparr>collapsible := False\<rparr>) ''zzz'' ''click''
               component_sample = Inr st'
           \<and> state_data st' = state_data component_sample)
   \<and> handleNodeToggle (defaultProps\<lparr>collapsible := False\<rparr>) ''zzz'' ''click'' component_sample
       = Inr component_sample"
proof -
  have nmem: "''zzz'' \<notin> node_id ` set (all_nodes (state_data component_sample))"
    by (simp add: ids_tree_sample)
  note T = handleNodeToggle_absent[OF nmem, of "defaultProps\<lparr>collapsible := False\<rparr>" "''click''"]
  have ncol: "\<not> collapsible (defaultProps\<lparr>collapsible := False\<rparr>)" by simp
  from T have a: "findNodesById ''zzz'' (clone (state_data component_sample)) [] = []" by blast
  from T ncol have b: "\<exists>st'. handleNodeToggle (defaultProps\<lparr>collapsible := False\<rparr>) ''zzz'' ''click''
               component_sample = Inr st'
           \<and> state_data st' = state_data component_sample" by blast
  have c: "handleNodeToggle (defaultProps\<lparr>collapsible := False\<rparr>) ''zzz'' ''click'' component_sample
       = Inr component_sample"
    by (simp add: handleNodeToggle_def handleOnClickCb_def defaultProps_def
        component_sample_def tree_sample_def clone_def findNodesById_at.simps(1))
  show ?thesis using nmem a ncol b c by blast
qed

text \<open>
  The claim as stated fails in collapsible mode, the default: \<^verbatim>\<open>matches[0]\<close> is
  \<^verbatim>\<open>undefined\<close> and the handler throws on \<^verbatim>\<open>targetNode._collapsed\<close>.
\<close>

theorem handleNodeToggle_absent_counterexample:
  "''zzz'' \<notin> node_id ` set (all_nodes (state_data component_sample))
   \<and> collapsible defaultProps
   \<and> handleNodeToggle defaultProps ''zzz'' ''click'' component_sample = Inl TypeError"
  by (simp add: ids_tree_sample handleNodeToggle_def defaultProps_def component_sample_def
      tree_sample_def clone_def findNodesById_at.simps(1))


subsection \<open>Layout\<close>

text \<open>
  Claim C6. With \<^verbatim>\<open>initialDepth = 1\<close> on the chain root, \<open>a\<close>, \<open>b\<close>, whatever the
  placement: the first call of \<open>generateTree\<close> returns all three nodes and both links,
  and only then marks \<open>a\<close> (depth 1) and \<open>b\<close> (depth 2) collapsed, the root not; the
  lists of that pass are not cut at the depth. The second call, after
  \<^verbatim>\<open>componentDidMount\<close>, returns the root and \<open>a\<close> with their link and writes nothing.
  After a click on \<open>a\<close> the node is expanded, the next call returns all three nodes
  and leaves \<open>a\<close> expanded, with \<^verbatim>\<open>initialDepth\<close> still configured.
\<close>

theorem generateTree_initialDepth_first_pass:
  "map (\<lambda>v. (h_ref v, h_depth v)) (result_nodes (first_pass walk))
     = [([0], 0), ([0, 0], 1), ([0, 0, 0], 2)]
   \<and> result_links (first_pass walk) = [([0], [0, 0]), ([0, 0], [0, 0, 0])]
   \<and> map u_collapsed (all_nodes (state_data (after_first_pass walk))) = [False, True, True]
   \<and> map (\<lambda>v. (h_ref v, h_depth v))
        (result_nodes (generateTree walk (defaultProps\<lparr>initialDepth := Some 1\<rparr>)
                         (after_first_pass walk)))
     = [([0], 0), ([0, 0], 1)]
   \<and> result_links (generateTree walk (defaultProps\<lparr>initialDepth := Some 1\<rparr>)
                         (after_first_pass walk))
     = [([0], [0, 0])]
   \<and> result_component (after_first_pass walk)
        (generateTree walk (defaultProps\<lparr>initialDepth := Some 1\<rparr>) (after_first_pass walk))
     = after_first_pass walk
   \<and> map u_collapsed (all_nodes (state_data (after_click walk))) = [False, False, True]
   \<and> map (\<lambda>v. (h_ref v, h_depth v))
        (result_nodes (generateTree walk (defaultProps\<lparr>initialDepth := Some 1\<rparr>)
                         (after_click walk)))
     = [([0], 0), ([0, 0], 1), ([0, 0, 0], 2)]
   \<and> result_component (after_click walk)
        (generateTree walk (defaultProps\<lparr>initialDepth := Some 1\<rparr>) (after_click walk))
     = after_click walk"
proof -
  have a: "map u_collapsed (all_nodes (state_data (after_first_pass walk))) = [False, True, True]"
    by (simp add: after_first_pass_eval)
  have b: "map u_collapsed (all_nodes (state_data (after_click walk))) = [False, False, True]"
    by (simp add: after_click_eval)
  show ?thesis using a b first_pass_eval second_pass_eval third_pass_eval by blast
qed

text \<open>
  Claim C7, as amended. The two orientations visit the same nodes at the same depths.
  The off-axis position of a node is its unit coordinate times \<^verbatim>\<open>nodeSize.y\<close> in
  horizontal and times \<^verbatim>\<open>nodeSize.x\<close> in vertical orientation, whatever the placement.
  When \<^verbatim>\<open>nodeSize.x = nodeSize.y\<close> the two calls of \<open>generateTree\<close> return the same
  result, so the sets of depth / off-axis position pairs are the same.
\<close>

theorem generateTree_orientation_swap:
  "(pt_x (nodeSize p) = pt_y (nodeSize p) \<longrightarrow>
      generateTree walk (p\<lparr>orientation := Horizontal\<rparr>) st
        = generateTree walk (p\<lparr>orientation := Vertical\<rparr>) st
      \<and> offaxis_pairs (result_nodes (generateTree walk (p\<lparr>orientation := Horizontal\<rparr>) st))
        = offaxis_pairs (result_nodes (generateTree walk (p\<lparr>orientation := Vertical\<rparr>) st)))
   \<and> map (\<lambda>v. (h_ref v, h_depth v))
         (result_nodes (generateTree walk (p\<lparr>orientation := Horizontal\<rparr>) st))
      = map (\<lambda>v. (h_ref v, h_depth v))
         (result_nodes (generateTree walk (p\<lparr>orientation := Vertical\<rparr>) st))
   \<and> map v_x (result_nodes (generateTree walk (p\<lparr>orientation := Horizontal\<rparr>) st))
      = map (\<lambda>u. u * pt_y (nodeSize p)) (unit_positions walk p st)
   \<and> map v_x (result_nodes (generateTree walk (p\<lparr>orientation := Vertical\<rparr>) st))
      = map (\<lambda>u. u * pt_x (nodeSize p)) (unit_positions walk p st)"
proof -
  have e: "pt_x (nodeSize p) = pt_y (nodeSize p) \<Longrightarrow>
      generateTree walk (p\<lparr>orientation := Horizontal\<rparr>) st
        = generateTree walk (p\<lparr>orientation := Vertical\<rparr>) st"
    by (cases "state_data st") (simp_all add: generateTree_def tree_nodeSize_def Let_def)
  have u: "unit_positions walk (p\<lparr>orientation := ori\<rparr>) st = unit_positions walk p st" for ori
    by (cases "state_data st") (simp_all add: unit_positions_def)
  have h: "map v_x (result_nodes (generateTree walk (p\<lparr>orientation := Horizontal\<rparr>) st))
      = map (\<lambda>u. u * pt_y (nodeSize p)) (unit_positions walk p st)"
    using v_x_generateTree[of walk "p\<lparr>orientation := Horizontal\<rparr>" st]
    by (simp add: u tree_nodeSize_def)
  have v: "map v_x (result_nodes (generateTree walk (p\<lparr>orientation := Vertical\<rparr>) st))
      = map (\<lambda>u. u * pt_x (nodeSize p)) (unit_positions walk p st)"
    using v_x_generateTree[of walk "p\<lparr>orientation := Vertical\<rparr>" st]
    by (simp add: u tree_nodeSize_def)
  show ?thesis using e h v by (simp add: refs_generateTree)
qed

text \<open>
  The default node size, 140 by 140, on a root with two leaves.
\<close>

theorem generateTree_orientation_swap_witness:
  "pt_x (nodeSize defaultProps) = pt_y (nodeSize defaultProps)
   \<and> generateTree walk_two_leaves (defaultProps\<lparr>orientation := Horizontal\<rparr>)
        (constructor uuid_sample star_sample 0)
     = generateTree walk_two_leaves (defaultProps\<lparr>orientation := Vertical\<rparr>)
        (constructor uuid_sample star_sample 0)
   \<and> offaxis_pairs (result_nodes (generateTree walk_two_leaves
         (defaultProps\<lparr>orientation := Horizontal\<rparr>) (constructor uuid_sample star_sample 0)))
     = {(0, 0), (1, - 70), (1, 70)}
   \<and> offaxis_pairs (result_nodes (generateTree walk_two_leaves
         (defaultProps\<lparr>orientation := Vertical\<rparr>) (constructor uuid_sample star_sample 0)))
     = {(0, 0), (1, - 70), (1, 70)}"
proof -
  have sq: "pt_x (nodeSize defaultProps) = pt_y (nodeSize defaultProps)"
    by (simp add: defaultProps_def)
  from generateTree_orientation_swap[of defaultProps walk_two_leaves
         "constructor uuid_sample star_sample 0"] sq
  have e: "generateTree walk_two_leaves (defaultProps\<lparr>orientation := Horizontal\<rparr>)
        (constructor uuid_sample star_sample 0)
     = generateTree walk_two_leaves (defaultProps\<lparr>orientation := Vertical\<rparr>)
        (constructor uuid_sample star_sample 0)" by blast
  show ?thesis using sq e star_default by blast
qed

text \<open>
  The claim as stated fails for a node size of 100 by 200: the leaves of the root are
  at \<open>-100\<close> and \<open>100\<close> in horizontal and at \<open>-50\<close> and \<open>50\<close> in vertical orientation.
\<close>

theorem generateTree_orientation_swap_counterexample:
  "offaxis_pairs (result_nodes (generateTree walk_two_leaves
       (wide_props\<lparr>orientation := Horizontal\<rparr>) (constructor uuid_sample star_sample 0)))
   \<noteq> offaxis_pairs (result_nodes (generateTree walk_two_leaves
       (wide_props\<lparr>orientation := Vertical\<rparr>) (constructor uuid_sample star_sample 0)))"
proof -
  have "(1::nat, 100::real) \<in> {(0, 0), (1, - 100), (1, 100)}" by simp
  moreover have "(1::nat, 100::real) \<notin> {(0, 0), (1, - 50), (1, 50)}" by simp
  ultimately show ?thesis unfolding star_horizontal star_vertical by metis
qed




subsection \<open>Initial zoom\<close>

text \<open>
  Claim C9. For every zoom value and every scale extent with \<open>min \<le> max\<close>,
  \<open>calculateD3Geometry\<close> returns the maximum when the zoom is above it, the minimum when
  the zoom is below it and the zoom itself otherwise, and it passes \<^verbatim>\<open>translate\<close> through.
  With the extent 0.1 to 1 it maps zoom 5 to 1, zoom 0.01 to 0.1 and zoom 0.5 to 0.5.
  The function only compares its numbers, so the reals stand for them exactly.
\<close>

theorem calculateD3Geometry_clamps:
  "(se_min (scaleExtent p) \<le> se_max (scaleExtent p) \<longrightarrow>
      (zoom p > se_max (scaleExtent p) \<longrightarrow>
         g_scale (calculateD3Geometry p) = se_max (scaleExtent p))
    \<and> (zoom p < se_min (scaleExtent p) \<longrightarrow>
         g_scale (calculateD3Geometry p) = se_min (scaleExtent p))
    \<and> (se_min (scaleExtent p) \<le> zoom p \<and> zoom p \<le> se_max (scaleExtent p) \<longrightarrow>
         g_scale (calculateD3Geometry p) = zoom p))
   \<and> g_translate (calculateD3Geometry p) = translate p
   \<and> g_scale (calculateD3Geometry
        (q\<lparr>zoom := 5, scaleExtent := \<lparr>se_min = 1 / 10, se_max = 1\<rparr>\<rparr>)) = 1
   \<and> g_scale (calculateD3Geometry
        (q\<lparr>zoom := 1 / 100, scaleExtent := \<lparr>se_min = 1 / 10, se_max = 1\<rparr>\<rparr>)) = 1 / 10
   \<and> g_scale (calculateD3Geometry
        (q\<lparr>zoom := 1 / 2, scaleExtent := \<lparr>se_min = 1 / 10, se_max = 1\<rparr>\<rparr>)) = 1 / 2"
  by (simp add: calculateD3Geometry_def)

text \<open>
  The three cases at the default scale extent, 0.1 to 1.
\<close>

theorem calculateD3Geometry_clamps_witness:
  "se_min (scaleExtent (defaultProps\<lparr>zoom := 5\<rparr>)) \<le> se_max (scaleExtent (defaultProps\<lparr>zoom := 5\<rparr>))
   \<and> zoom (defaultProps\<lparr>zoom := 5\<rparr>) > se_max (scaleExtent (defaultProps\<lparr>zoom := 5\<rparr>))
   \<and> g_scale (calculateD3Geometry (defaultProps\<lparr>zoom := 5\<rparr>)) = 1
   \<and> se_min (scaleExtent (defaultProps\<lparr>zoom := 1 / 100\<rparr>)) \<le> se_max (scaleExtent (defaultProps\<lparr>zoom := 1 / 100\<rparr>))
   \<and> zoom (defaultProps\<lparr>zoom := 1 / 100\<rparr>) < se_min (scaleExtent (defaultProps\<lparr>zoom := 1 / 100\<rparr>))
   \<and> g_scale (calculateD3Geometry (defaultProps\<lparr>zoom := 1 / 100\<rparr>)) = 1 / 10
   \<and> g_scale (calculateD3Geometry (defaultProps\<lparr>zoom := 1 / 2\<rparr>)) = 1 / 2"
proof -
  have a: "se_min (scaleExtent (defaultProps\<lparr>zoom := z\<rparr>)) \<le> se_max (scaleExtent (defaultProps\<lparr>zoom := z\<rparr>))"
    for z by (simp add: defaultProps_def)
  have b: "zoom (defaultProps\<lparr>zoom := 5\<rparr>) > se_max (scaleExtent (defaultProps\<lparr>zoom := 5\<rparr>))"
    by (simp add: defaultProps_def)
  have c: "zoom (defaultProps\<lparr>zoom := 1 / 100\<rparr>) < se_min (scaleExtent (defaultProps\<lparr>zoom := 1 / 100\<rparr>))"
    by (simp add: defaultProps_def)
  have d: "se_min (scaleExtent (defaultProps\<lparr>zoom := 1 / 2\<rparr>)) \<le> zoom (defaultProps\<lparr>zoom := 1 / 2\<rparr>)
     \<and> zoom (defaultProps\<lparr>zoom := 1 / 2\<rparr>) \<le> se_max (scaleExtent (defaultProps\<lparr>zoom := 1 / 2\<rparr>))"
    by (simp add: defaultProps_def)
  have m: "se_max (scaleExtent (defaultProps\<lparr>zoom := z\<rparr>)) = 1"
    "se_min (scaleExtent (defaultProps\<lparr>zoom := z\<rparr>)) = 1 / 10" 
    "zoom (defaultProps\<lparr>zoom := z\<rparr>) = z" for z
    by (simp_all add: defaultProps_def)
  from calculateD3Geometry_clamps[of "defaultProps\<lparr>zoom := 5\<rparr>"] a b
  have 1: "g_scale (calculateD3Geometry (defaultProps\<lparr>zoom := 5\<rparr>)) = 1" unfolding m by blast
  from calculateD3Geometry_clamps[of "defaultProps\<lparr>zoom := 1 / 100\<rparr>"] a c
  have 2: "g_scale (calculateD3Geometry (defaultProps\<lparr>zoom := 1 / 100\<rparr>)) = 1 / 10" unfolding m by blast
  from calculateD3Geometry_clamps[of "defaultProps\<lparr>zoom := 1 / 2\<rparr>"] a d
  have 3: "g_scale (calculateD3Geometry (defaultProps\<lparr>zoom := 1 / 2\<rparr>)) = 1 / 2" unfolding m by blast
  show ?thesis using a b c 1 2 3 by blast
qed

end
